theory Spec2Isabelle
  imports
    Complex_Main
    "HOL-Library.AList"
    "HOL-Library.Multiset"
    "HOL-Library.Char_ord"
    "HOL-Library.List_Lexorder"
    "HOL-Library.Product_Lexorder"
begin

section \<open>Data model\<close>

text \<open>
  The program reads JSON objects returned by the Codeforces API. A submission and its
  problem are modelled as records whose fields are the dictionary keys the code reads;
  a field is \<open>None\<close> when \<open>dict.get\<close> returns \<open>None\<close> (the key is absent or null).
  The rating is the one field whose conversion the code guards with \<open>try/except\<close>,
  so it is kept as an untyped JSON value. Python integers are \<open>int\<close>; a Python float
  is the rational number it denotes, so the floats of the model are the finite ones. A
  string is a list of characters with code points below 256.
\<close>

datatype json_value = JNum rat | JBool bool | JStr string | JOther

record cf_problem =
  contestId :: "int option"
  index :: "string option"
  name :: "string option"
  tags :: "string list option"
  rating :: "json_value option"

record cf_submission =
  verdict :: "string option"
  creationTimeSeconds :: "int option"
  problem :: "cf_problem option"

text \<open>A solved record is the tuple \<open>(ts, tags, name, rating)\<close> stored per problem key.\<close>

type_synonym solved_record = "int \<times> string list \<times> string \<times> json_value option"

text \<open>
  A Python \<open>dict\<close> keeps its keys in insertion order and an assignment to a key that is
  present keeps the key's place: an association list updated with \<open>AList.update\<close>.
\<close>

type_synonym solved_map = "(string \<times> solved_record) list"

section \<open>The first-acceptance reducer\<close>

text \<open>\<open>str(n)\<close> of a Python integer, used by the f-string that builds the key.\<close>

fun digits10 :: "nat \<Rightarrow> string" where
  "digits10 n = (if n < 10 then [''0123456789'' ! n]
                 else digits10 (n div 10) @ [''0123456789'' ! (n mod 10)])"

definition str_int :: "int \<Rightarrow> string" where
  "str_int i = (if i < 0 then CHR ''-'' # digits10 (nat (- i)) else digits10 (nat i))"

text \<open>\<open>s.get("problem", {})\<close>: the empty dictionary when the key is absent.\<close>

definition empty_problem :: cf_problem where
  "empty_problem = \<lparr>contestId = None, index = None, name = None, tags = None, rating = None\<rparr>"

definition sub_problem :: "cf_submission \<Rightarrow> cf_problem" where
  "sub_problem s = (case problem s of None \<Rightarrow> empty_problem | Some p \<Rightarrow> p)"

text \<open>\<open>int(s.get("creationTimeSeconds", 0))\<close>.\<close>

definition sub_ts :: "cf_submission \<Rightarrow> int" where
  "sub_ts s = (case creationTimeSeconds s of None \<Rightarrow> 0 | Some t \<Rightarrow> t)"

definition nopid_key :: "cf_problem \<Rightarrow> string" where
  "nopid_key p = ''nopid-'' @ (case name p of None \<Rightarrow> ''unknown'' | Some n \<Rightarrow> n)"

text \<open>
  The problem identity: \<open>contestId-index\<close> when \<open>contestId\<close> is not \<open>None\<close> and \<open>index\<close>
  is truthy (a non-empty string), the name-derived key otherwise.
\<close>

definition problem_key :: "cf_problem \<Rightarrow> string" where
  "problem_key p =
     (case contestId p of
        None \<Rightarrow> nopid_key p
      | Some c \<Rightarrow>
          (case index p of
             None \<Rightarrow> nopid_key p
           | Some i \<Rightarrow> if i \<noteq> [] then str_int c @ ''-'' @ i else nopid_key p))"

definition sub_key :: "cf_submission \<Rightarrow> string" where
  "sub_key s = problem_key (sub_problem s)"

definition accepted :: "cf_submission \<Rightarrow> bool" where
  "accepted s = (verdict s = Some ''OK'')"

text \<open>The tuple written for a submission: \<open>(ts, p.get("tags", []), p.get("name", ""), p.get("rating"))\<close>.\<close>

definition sub_meta :: "cf_submission \<Rightarrow> string list \<times> string \<times> json_value option" where
  "sub_meta s =
     (let p = sub_problem s in
      ((case tags p of None \<Rightarrow> [] | Some tg \<Rightarrow> tg),
       (case name p of None \<Rightarrow> [] | Some n \<Rightarrow> n),
       rating p))"

definition sub_record :: "cf_submission \<Rightarrow> solved_record" where
  "sub_record s = (sub_ts s, sub_meta s)"

text \<open>One iteration of the loop of \<open>collect_first_ac_per_problem\<close>.\<close>

definition collect_step :: "solved_map \<Rightarrow> cf_submission \<Rightarrow> solved_map" where
  "collect_step solved s =
     (if verdict s \<noteq> Some ''OK'' then solved
      else
        let ts = sub_ts s; key = sub_key s in
        if (case map_of solved key of None \<Rightarrow> True | Some r \<Rightarrow> ts < fst r)
        then AList.update key (sub_record s) solved
        else solved)"

definition collect_first_ac_per_problem :: "cf_submission list \<Rightarrow> solved_map" where
  "collect_first_ac_per_problem submissions_iter = foldl collect_step [] submissions_iter"

text \<open>The accepted submissions of a stream that derive the key \<open>k\<close>.\<close>

definition ac_for :: "cf_submission list \<Rightarrow> string \<Rightarrow> cf_submission set" where
  "ac_for subs k = {s \<in> set subs. accepted s \<and> sub_key s = k}"

text \<open>
  Two accepted submissions of the same problem key made in the same second carry the
  same tags, name and rating.
\<close>

definition ties_agree :: "cf_submission list \<Rightarrow> bool" where
  "ties_agree subs =
     (\<forall>a \<in> set subs. \<forall>b \<in> set subs.
        accepted a \<and> accepted b \<and> sub_key a = sub_key b \<and> sub_ts a = sub_ts b
          \<longrightarrow> sub_meta a = sub_meta b)"

text \<open>Example submissions: the scenario of the specification, and a tie.\<close>

definition mk_sub :: "string \<Rightarrow> int \<Rightarrow> int \<Rightarrow> string \<Rightarrow> string \<Rightarrow> string list \<Rightarrow> cf_submission" where
  "mk_sub v ts c i n tg =
     \<lparr>verdict = Some v, creationTimeSeconds = Some ts,
      problem = Some \<lparr>contestId = Some c, index = Some i, name = Some n,
                       tags = Some tg, rating = Some (JNum 800)\<rparr>\<rparr>"

definition scenario_subs :: "cf_submission list" where
  "scenario_subs =
     [mk_sub ''OK'' 100 1 ''A'' ''Alpha'' [''dp''],
      mk_sub ''OK'' 50 1 ''A'' ''Alpha'' [''dp''],
      mk_sub ''WRONG_ANSWER'' 200 2 ''B'' ''Beta'' [''greedy'']]"

definition tie_a :: cf_submission where
  "tie_a = mk_sub ''OK'' 5 1 ''A'' ''Alpha'' [''dp'']"

definition tie_b :: cf_submission where
  "tie_b = mk_sub ''OK'' 5 1 ''A'' ''Alpha'' [''greedy'']"

section \<open>Dates\<close>

text \<open>
  A \<open>datetime\<close> of the program is always timezone-aware and in UTC: \<open>parse_date_maybe\<close>
  attaches or converts to UTC, and the defaults come from \<open>datetime.now(timezone.utc)\<close>.
  The record holds its calendar fields.
\<close>

record datetime =
  year :: int
  month :: int
  day :: int
  hour :: int
  minute :: int
  second :: int
  microsecond :: int

definition mk_dt :: "int \<Rightarrow> int \<Rightarrow> int \<Rightarrow> int \<Rightarrow> int \<Rightarrow> int \<Rightarrow> datetime" where
  "mk_dt y m d h mi s =
     \<lparr>year = y, month = m, day = d, hour = h, minute = mi, second = s, microsecond = 0\<rparr>"

definition is_leap :: "int \<Rightarrow> bool" where
  "is_leap y = (y mod 4 = 0 \<and> (y mod 100 \<noteq> 0 \<or> y mod 400 = 0))"

definition days_before_year :: "int \<Rightarrow> int" where
  "days_before_year y = (let y1 = y - 1 in y1 * 365 + y1 div 4 - y1 div 100 + y1 div 400)"

definition days_in_month :: "int \<Rightarrow> int \<Rightarrow> int" where
  "days_in_month y m =
     (if m = 2 then (if is_leap y then 29 else 28)
      else if m = 4 \<or> m = 6 \<or> m = 9 \<or> m = 11 then 30 else 31)"

definition days_before_month :: "int \<Rightarrow> int \<Rightarrow> int" where
  "days_before_month y m = sum_list (map (days_in_month y) [1..m - 1])"

text \<open>The proleptic Gregorian ordinal of a date (1 is 0001-01-01; 719163 is 1970-01-01).\<close>

definition ymd2ord :: "int \<Rightarrow> int \<Rightarrow> int \<Rightarrow> int" where
  "ymd2ord y m d = days_before_year y + days_before_month y m + d"

definition epoch_us :: "datetime \<Rightarrow> int" where
  "epoch_us dt =
     (((ymd2ord (year dt) (month dt) (day dt) - 719163) * 86400
        + hour dt * 3600 + minute dt * 60 + second dt) * 1000000 + microsecond dt)"

text \<open>\<open>int(x)\<close> of a quotient: truncation toward zero.\<close>

definition py_trunc_div :: "int \<Rightarrow> int \<Rightarrow> int" where
  "py_trunc_div a b = (if 0 \<le> a then a div b else - ((- a) div b))"

text \<open>
  \<open>int(dt.timestamp())\<close>: the whole seconds since the epoch. \<open>timestamp\<close> returns a double;
  for the years 1500 to 2500 the double keeps the second, outside them its rounding can
  move a datetime with microseconds by one second.
\<close>

definition timestamp_int :: "datetime \<Rightarrow> int" where
  "timestamp_int dt = py_trunc_div (epoch_us dt) 1000000"

text \<open>\<open>a > b\<close> on two datetimes of the same zone compares their fields in order.\<close>

definition dt_fields :: "datetime \<Rightarrow> int \<times> int \<times> int \<times> int \<times> int \<times> int \<times> int" where
  "dt_fields dt = (year dt, month dt, day dt, hour dt, minute dt, second dt, microsecond dt)"

definition datetime_gt :: "datetime \<Rightarrow> datetime \<Rightarrow> bool" where
  "datetime_gt a b = (dt_fields a > dt_fields b)"

text \<open>
  The calendar date of a day count since the epoch, for \<open>datetime.fromtimestamp\<close> and
  \<open>astimezone\<close>.
\<close>

definition civil_from_days :: "int \<Rightarrow> int \<times> int \<times> int" where
  "civil_from_days z0 =
     (let z = z0 + 719468;
          era = z div 146097;
          doe = z mod 146097;
          yoe = (doe - doe div 1460 + doe div 36524 - doe div 146096) div 365;
          y = yoe + era * 400;
          doy = doe - (365 * yoe + yoe div 4 - yoe div 100);
          mp = (5 * doy + 2) div 153;
          d = doy - (153 * mp + 2) div 5 + 1;
          m = (if mp < 10 then mp + 3 else mp - 9)
      in (if m \<le> 2 then y + 1 else y, m, d))"

definition datetime_of_epoch_us :: "int \<Rightarrow> datetime" where
  "datetime_of_epoch_us us =
     (let secs = us div 1000000;
          rem = secs mod 86400
      in case civil_from_days (secs div 86400) of
           (y, m, d) \<Rightarrow>
             \<lparr>year = y, month = m, day = d, hour = rem div 3600, minute = (rem mod 3600) div 60,
              second = rem mod 60, microsecond = us mod 1000000\<rparr>)"

text \<open>The range of \<open>datetime\<close>: years 1 to 9999.\<close>

definition min_epoch_us :: int where
  "min_epoch_us = - 62135596800000000"

definition max_epoch_us :: int where
  "max_epoch_us = 253402300799999999"

section \<open>The paged submission fetcher\<close>

text \<open>The exceptions of the program, by their Python class, with the message.\<close>

datatype error = ValueError string | RuntimeError string | NameError string | RequestError string

text \<open>
  \<open>api_user_status(handle, _from, count)\<close> is the network: a parameter that returns the
  page or the exception the call raises.
\<close>

type_synonym api_status = "string \<Rightarrow> int \<Rightarrow> int \<Rightarrow> error + cf_submission list"

text \<open>
  \<open>fetch_submissions_in_period\<close> is a generator. Its run is recorded as the page requests
  it issued, each with the response, the submissions it yielded, and how it ended: by
  one of the three \<open>break\<close>s of the loop, or by an exception.
\<close>

datatype stop_reason = ReachedMaxRequests | NoMoreSubmissions | OlderThanFrom

record page_request =
  req_from :: int
  req_count :: int
  response :: "error + cf_submission list"

record fetch_result =
  requests :: "page_request list"
  emitted :: "cf_submission list"
  outcome :: "error + stop_reason"

text \<open>
  One iteration of the \<open>for s in page\<close> loop; the state is \<open>oldest_ts_in_page\<close> and the
  submissions yielded from this page so far.
\<close>

definition scan_step ::
  "int option \<Rightarrow> int option \<Rightarrow> int option \<times> cf_submission list \<Rightarrow> cf_submission
     \<Rightarrow> int option \<times> cf_submission list" where
  "scan_step from_ts to_ts st s =
     (let ts = sub_ts s;
          oldest_ts_in_page =
            (case fst st of None \<Rightarrow> Some ts | Some old \<Rightarrow> if ts < old then Some ts else Some old)
      in
        if (case from_ts of None \<Rightarrow> False | Some f \<Rightarrow> ts < f) then (oldest_ts_in_page, snd st)
        else if (case to_ts of None \<Rightarrow> False | Some t \<Rightarrow> ts > t) then (oldest_ts_in_page, snd st)
        else (oldest_ts_in_page, snd st @ [s]))"

definition scan_page ::
  "int option \<Rightarrow> int option \<Rightarrow> cf_submission list \<Rightarrow> int option \<times> cf_submission list" where
  "scan_page from_ts to_ts page = foldl (scan_step from_ts to_ts) (None, []) page"

text \<open>
  \<open>oldest_ts_in_page is not None and from_ts is not None and oldest_ts_in_page < from_ts\<close>.
\<close>

definition older_than_from :: "int option \<Rightarrow> int option \<Rightarrow> bool" where
  "older_than_from oldest_ts_in_page from_ts =
     (case oldest_ts_in_page of
        None \<Rightarrow> False
      | Some old \<Rightarrow> (case from_ts of None \<Rightarrow> False | Some f \<Rightarrow> old < f))"

text \<open>
  The \<open>while True\<close> loop, from the state \<open>(start_idx, requests_made)\<close>. The counter
  \<open>yielded\<close> and the \<open>progress\<close> callback only report and are left out.
\<close>

function fetch_loop ::
  "api_status \<Rightarrow> string \<Rightarrow> int option \<Rightarrow> int option \<Rightarrow> int \<Rightarrow> int \<Rightarrow> int \<Rightarrow> int \<Rightarrow> fetch_result" where
  "fetch_loop api handle from_ts to_ts page_size max_requests start_idx requests_made =
     (if requests_made \<ge> max_requests
      then \<lparr>requests = [], emitted = [], outcome = Inr ReachedMaxRequests\<rparr>
      else
        (case api handle start_idx page_size of
           Inl e \<Rightarrow>
             \<lparr>requests = [\<lparr>req_from = start_idx, req_count = page_size, response = Inl e\<rparr>],
              emitted = [], outcome = Inl e\<rparr>
         | Inr page \<Rightarrow>
             if page = []
             then \<lparr>requests = [\<lparr>req_from = start_idx, req_count = page_size, response = Inr page\<rparr>],
                   emitted = [], outcome = Inr NoMoreSubmissions\<rparr>
             else if older_than_from (fst (scan_page from_ts to_ts page)) from_ts
             then \<lparr>requests = [\<lparr>req_from = start_idx, req_count = page_size, response = Inr page\<rparr>],
                   emitted = snd (scan_page from_ts to_ts page), outcome = Inr OlderThanFrom\<rparr>
             else
               (let r = fetch_loop api handle from_ts to_ts page_size max_requests
                          (start_idx + int (length page)) (requests_made + 1)
                in \<lparr>requests = \<lparr>req_from = start_idx, req_count = page_size, response = Inr page\<rparr>
                                  # requests r,
                     emitted = snd (scan_page from_ts to_ts page) @ emitted r,
                     outcome = outcome r\<rparr>)))"
  by pat_completeness auto
termination
  by (relation "measure (\<lambda>(api, handle, from_ts, to_ts, page_size, max_requests, start_idx, requests_made).
                  nat (max_requests - requests_made))") auto

declare fetch_loop.simps [simp del]

text \<open>
  The function with its defaults: an omitted \<open>page_size\<close> is 1000, an omitted
  \<open>max_requests\<close> is 100. The range check runs when the generator is first advanced,
  before any request.
\<close>

definition fetch_submissions_in_period ::
  "api_status \<Rightarrow> string \<Rightarrow> datetime option \<Rightarrow> datetime option \<Rightarrow> int option \<Rightarrow> int option
     \<Rightarrow> fetch_result" where
  "fetch_submissions_in_period api handle dt_from dt_to page_size_arg max_requests_arg =
     (let page_size = (case page_size_arg of None \<Rightarrow> 1000 | Some n \<Rightarrow> n);
          max_requests = (case max_requests_arg of None \<Rightarrow> 100 | Some n \<Rightarrow> n)
      in
        if (case dt_from of
              None \<Rightarrow> False
            | Some f \<Rightarrow> (case dt_to of None \<Rightarrow> False | Some t \<Rightarrow> datetime_gt f t))
        then \<lparr>requests = [], emitted = [],
              outcome = Inl (ValueError ''From date must be <= To date'')\<rparr>
        else
          fetch_loop api handle (map_option timestamp_int dt_from) (map_option timestamp_int dt_to)
            page_size max_requests 1 0)"

text \<open>A submission is in the window when neither \<open>continue\<close> of the page loop skips it.\<close>

definition in_window :: "int option \<Rightarrow> int option \<Rightarrow> cf_submission \<Rightarrow> bool" where
  "in_window from_ts to_ts s =
     ((case from_ts of None \<Rightarrow> True | Some f \<Rightarrow> f \<le> sub_ts s)
      \<and> (case to_ts of None \<Rightarrow> True | Some t \<Rightarrow> sub_ts s \<le> t))"

text \<open>The in-window submissions of the page a request returned.\<close>

definition page_window :: "int option \<Rightarrow> int option \<Rightarrow> page_request \<Rightarrow> cf_submission list" where
  "page_window from_ts to_ts q =
     (case response q of Inl e \<Rightarrow> [] | Inr page \<Rightarrow> filter (in_window from_ts to_ts) page)"

text \<open>Example submissions and paged sources.\<close>

definition sub_at :: "int \<Rightarrow> cf_submission" where
  "sub_at ts = mk_sub ''OK'' ts 1 ''A'' ''Alpha'' [''dp'']"

definition no_ts_sub :: cf_submission where
  "no_ts_sub = (sub_at 0)\<lparr>creationTimeSeconds := None\<rparr>"

definition two_page_api :: api_status where
  "two_page_api handle i cnt =
     (if i = 1 then Inr [sub_at 100, sub_at 10] else if i = 3 then Inr [sub_at 5] else Inr [])"

definition no_ts_api :: api_status where
  "no_ts_api handle i cnt = (if i = 1 then Inr [sub_at 100, no_ts_sub] else Inr [])"

definition endless_api :: api_status where
  "endless_api handle i cnt = Inr [sub_at 100]"

section \<open>The tag aggregator\<close>

text \<open>
  \<open>float(rating)\<close>: a number converts to itself and a boolean to 0 or 1; a list or
  dictionary raises \<open>TypeError\<close>. For a string, \<open>float\<close> runs Python's parser of numeric
  literals, a library function taken as the parameter \<open>str_to_float\<close> (\<open>None\<close> when it
  raises \<open>ValueError\<close>). A float is the rational it denotes: a number is taken to be a
  double already (an integer of magnitude up to 2 to the 53, or the double a JSON number
  was read as), and the model holds no infinity and no NaN, which \<open>float\<close> returns on the
  texts \<open>inf\<close> and \<open>nan\<close>. \<open>min\<close>, \<open>max\<close> and \<open>int\<close> are exact on doubles.
\<close>

fun py_float :: "(string \<Rightarrow> rat option) \<Rightarrow> json_value \<Rightarrow> rat option" where
  "py_float str_to_float (JNum r) = Some r"
| "py_float str_to_float (JBool b) = Some (if b then 1 else 0)"
| "py_float str_to_float (JStr s) = str_to_float s"
| "py_float str_to_float JOther = None"

record agg_state =
  tag_counts :: "(string \<times> int) list"
  tag_ratings :: "(string \<times> rat list) list"
  all_ratings :: "rat list"

text \<open>\<open>rating_val\<close> of a record: \<open>None\<close> when the rating is \<open>None\<close> or \<open>float\<close> raises.\<close>

definition rating_val_of :: "(string \<Rightarrow> rat option) \<Rightarrow> json_value option \<Rightarrow> rat option" where
  "rating_val_of str_to_float rt =
     (case rt of None \<Rightarrow> None | Some v \<Rightarrow> py_float str_to_float v)"

text \<open>The body of \<open>for tag in tags\<close>.\<close>

definition tag_step :: "rat option \<Rightarrow> agg_state \<Rightarrow> string \<Rightarrow> agg_state" where
  "tag_step rating_val st tag =
     (let st1 = st\<lparr>tag_counts :=
                   AList.update tag
                     ((case map_of (tag_counts st) tag of None \<Rightarrow> 0 | Some c \<Rightarrow> c) + 1)
                     (tag_counts st)\<rparr>
      in case rating_val of
           None \<Rightarrow> st1
         | Some v \<Rightarrow>
             st1\<lparr>tag_ratings :=
                   AList.update tag
                     ((case map_of (tag_ratings st1) tag of None \<Rightarrow> [] | Some lst \<Rightarrow> lst) @ [v])
                     (tag_ratings st1)\<rparr>)"

text \<open>The body of \<open>for (ts, tags, nm, rating) in solved_map.values()\<close>.\<close>

definition agg_step :: "(string \<Rightarrow> rat option) \<Rightarrow> agg_state \<Rightarrow> solved_record \<Rightarrow> agg_state" where
  "agg_step str_to_float st rec =
     (case rec of
        (ts, tgs, nm, rt) \<Rightarrow>
          let rating_val = rating_val_of str_to_float rt;
              st1 = (case rating_val of
                       None \<Rightarrow> st
                     | Some v \<Rightarrow> st\<lparr>all_ratings := all_ratings st @ [v]\<rparr>)
          in foldl (tag_step rating_val) st1 tgs)"

definition aggregate :: "(string \<Rightarrow> rat option) \<Rightarrow> solved_map \<Rightarrow> agg_state" where
  "aggregate str_to_float solved =
     foldl (agg_step str_to_float) \<lparr>tag_counts = [], tag_ratings = [], all_ratings = []\<rparr>
       (map snd solved)"

text \<open>\<open>int(x)\<close> of a float truncates toward zero.\<close>

definition py_int :: "rat \<Rightarrow> int" where
  "py_int q = (if 0 \<le> q then \<lfloor>q\<rfloor> else \<lceil>q\<rceil>)"

text \<open>
  \<open>round(sum(rlist) / len(rlist), 1)\<close> is double arithmetic: the sum and the quotient are
  rounded to doubles before \<open>round\<close> picks the decimal. It is the parameter \<open>round_mean\<close>,
  a function of the rating list. \<open>exact_mean\<close> is the instance used on the example lists,
  whose sums are exact and whose means are doubles with at most one decimal.
\<close>

definition exact_mean :: "rat list \<Rightarrow> rat" where
  "exact_mean rlist = sum_list rlist / of_nat (length rlist)"

text \<open>
  A line of the tag report holds the values its f-string prints: the tag, its count, and
  \<open>(min_r, max_r, avg_r)\<close>, or \<open>None\<close> for the line that prints \<open>N/A\<close> three times.
  \<open>NoTags\<close> is the line \<open>(none)\<close>.
\<close>

datatype tag_line = TagLine string int "(int \<times> int \<times> rat) option" | NoTags

definition tag_line_of ::
  "(rat list \<Rightarrow> rat) \<Rightarrow> (string \<times> rat list) list \<Rightarrow> string \<times> int \<Rightarrow> tag_line" where
  "tag_line_of round_mean ratings tc =
     (case tc of
        (tag, cnt) \<Rightarrow>
          let rlist = (case map_of ratings tag of None \<Rightarrow> [] | Some lst \<Rightarrow> lst)
          in if rlist \<noteq> []
             then TagLine tag cnt
                    (Some (py_int (Min (set rlist)), py_int (Max (set rlist)),
                           round_mean rlist))
             else TagLine tag cnt None)"

text \<open>\<open>sorted(tag_counts.items(), key=lambda x: (-x[1], x[0]))\<close>.\<close>

definition sorted_tag_counts :: "(string \<times> int) list \<Rightarrow> (string \<times> int) list" where
  "sorted_tag_counts counts = sort_key (\<lambda>x. (- snd x, fst x)) counts"

definition tag_lines_of :: "(rat list \<Rightarrow> rat) \<Rightarrow> agg_state \<Rightarrow> tag_line list" where
  "tag_lines_of round_mean st =
     (if tag_counts st \<noteq> []
      then map (tag_line_of round_mean (tag_ratings st)) (sorted_tag_counts (tag_counts st))
      else [NoTags])"





definition line_stats :: "tag_line \<Rightarrow> (int \<times> int \<times> rat) option" where
  "line_stats l = (case l of TagLine tag cnt st \<Rightarrow> st | NoTags \<Rightarrow> None)"

text \<open>
  \<open>tag_counts.get(tag, 0)\<close> and \<open>tag_ratings.get(tag, [])\<close>, and the ratings one record adds to
  a tag: its numeric rating, once for each time the record lists the tag.
\<close>

definition cnt_of :: "agg_state \<Rightarrow> string \<Rightarrow> int" where
  "cnt_of st tag = (case map_of (tag_counts st) tag of None \<Rightarrow> 0 | Some c \<Rightarrow> c)"

definition ratings_of :: "agg_state \<Rightarrow> string \<Rightarrow> rat list" where
  "ratings_of st tag = (case map_of (tag_ratings st) tag of None \<Rightarrow> [] | Some lst \<Rightarrow> lst)"




definition no_float :: "string \<Rightarrow> rat option" where
  "no_float s = None"

section \<open>The window and the run\<close>

text \<open>
  \<open>str.strip()\<close> removes the white space at both ends: the characters for which
  \<open>str.isspace\<close> holds, which below 256 are the ten ASCII ones, U+0085 and U+00A0.
\<close>

definition py_isspace :: "char \<Rightarrow> bool" where
  "py_isspace c = (c \<in> set [CHR '' '', CHR 0x09, CHR 0x0A, CHR 0x0B, CHR 0x0C, CHR 0x0D,
                              CHR 0x1C, CHR 0x1D, CHR 0x1E, CHR 0x1F, CHR 0x85, CHR 0xA0])"

definition strip :: "string \<Rightarrow> string" where
  "strip s = rev (dropWhile py_isspace (rev (dropWhile py_isspace s)))"

definition normalize_handle :: "string \<Rightarrow> string" where
  "normalize_handle raw =
     (let h = strip raw
      in if h = [] then []
         else if hd h = CHR ''<'' \<and> last h = CHR ''>'' then strip (butlast (tl h))
         else h)"

definition is_digit :: "char \<Rightarrow> bool" where
  "is_digit c = (c \<in> set ''0123456789'')"

definition digit_val :: "char \<Rightarrow> int" where
  "digit_val c = int (length (takeWhile (\<lambda>d. d \<noteq> c) ''0123456789''))"

definition digits_val :: "string \<Rightarrow> int" where
  "digits_val cs = foldl (\<lambda>acc c. 10 * acc + digit_val c) 0 cs"

text \<open>
  \<open>datetime.strptime(s, "%Y-%m-%d")\<close> on a string of ten characters, the only length the
  program passes: four digits, a month \<open>01\<close> to \<open>12\<close> and a day written with two
  characters, which \<open>%d\<close> reads as \<open>01\<close> to \<open>31\<close> or as a space and a digit. The date must
  exist. \<open>None\<close> when \<open>strptime\<close> raises \<open>ValueError\<close>.
\<close>

definition month_chars_ok :: "string \<Rightarrow> bool" where
  "month_chars_ok ms =
     (length ms = 2 \<and>
      ((ms ! 0 = CHR ''1'' \<and> ms ! 1 \<in> set ''012'')
       \<or> (ms ! 0 = CHR ''0'' \<and> ms ! 1 \<in> set ''123456789'')))"

definition day_chars_ok :: "string \<Rightarrow> bool" where
  "day_chars_ok ds =
     (length ds = 2 \<and>
      ((ds ! 0 = CHR ''3'' \<and> ds ! 1 \<in> set ''01'')
       \<or> (ds ! 0 \<in> set ''12'' \<and> is_digit (ds ! 1))
       \<or> (ds ! 0 \<in> set ''0 '' \<and> ds ! 1 \<in> set ''123456789'')))"

definition strptime_ymd :: "string \<Rightarrow> datetime option" where
  "strptime_ymd s =
     (let ys = take 4 s; ms = take 2 (drop 5 s); ds = drop 8 s
      in if length s = 10 \<and> list_all is_digit ys \<and> s ! 4 = CHR ''-'' \<and> s ! 7 = CHR ''-''
            \<and> month_chars_ok ms \<and> day_chars_ok ds
         then
           (let y = digits_val ys; m = digits_val ms;
                d = (if ds ! 0 = CHR '' '' then digit_val (ds ! 1) else digits_val ds)
            in if 1 \<le> y \<and> d \<le> days_in_month y m then Some (mk_dt y m d 0 0 0) else None)
         else None)"

text \<open>
  \<open>datetime.fromisoformat\<close> is a library parser whose grammar depends on the Python
  version; it is a parameter that returns the fields it read, with the UTC offset in
  microseconds when the text carries one, or \<open>None\<close> when it raises.
\<close>

datatype iso_result = IsoNaive datetime | IsoAware datetime int

text \<open>\<open>dt.astimezone(timezone.utc)\<close>; \<open>None\<close> when the result leaves the range of datetime.\<close>

definition astimezone_utc :: "datetime \<Rightarrow> int \<Rightarrow> datetime option" where
  "astimezone_utc dt utcoffset =
     (let us = epoch_us dt - utcoffset
      in if min_epoch_us \<le> us \<and> us \<le> max_epoch_us then Some (datetime_of_epoch_us us) else None)"

definition date_error :: error where
  "date_error = ValueError ''Date must be YYYY-MM-DD or ISO datetime''"

definition count_char :: "char \<Rightarrow> string \<Rightarrow> nat" where
  "count_char c s = length (filter (\<lambda>x. x = c) s)"

definition parse_date_maybe ::
  "(string \<Rightarrow> iso_result option) \<Rightarrow> string option \<Rightarrow> error + datetime option" where
  "parse_date_maybe fromisoformat s_arg =
     (case s_arg of
        None \<Rightarrow> Inr None
      | Some s0 \<Rightarrow>
          let s = strip s0
          in if s = [] then Inr None
             else if length s = 10 \<and> count_char (CHR ''-'') s = 2
             then (case strptime_ymd s of
                     None \<Rightarrow> Inl date_error
                   | Some dt \<Rightarrow> Inr (Some dt))
             else (case fromisoformat s of
                     None \<Rightarrow> Inl date_error
                   | Some (IsoNaive dt) \<Rightarrow> Inr (Some dt)
                   | Some (IsoAware dt utcoffset) \<Rightarrow>
                       (case astimezone_utc dt utcoffset of
                          None \<Rightarrow> Inl date_error
                        | Some u \<Rightarrow> Inr (Some u))))"

text \<open>
  The window \<open>start_fetch\<close> resolves from the two entry fields. The clock is a parameter:
  \<open>now_to\<close> is the value of \<open>datetime.now(timezone.utc)\<close> used for an empty To, and
  \<open>now_minus_30d\<close> the value of \<open>datetime.now(timezone.utc) - timedelta(days=30)\<close> used for
  an empty From.
\<close>

definition resolve_window ::
  "(string \<Rightarrow> iso_result option) \<Rightarrow> datetime \<Rightarrow> datetime \<Rightarrow> string \<Rightarrow> string
     \<Rightarrow> error + datetime \<times> datetime" where
  "resolve_window fromisoformat now_to now_minus_30d from_var to_var =
     (case parse_date_maybe fromisoformat (Some from_var) of
        Inl e \<Rightarrow> Inl e
      | Inr parsed_from \<Rightarrow>
          (case parse_date_maybe fromisoformat (Some to_var) of
             Inl e \<Rightarrow> Inl e
           | Inr parsed_to \<Rightarrow>
               let dt_to = (case parsed_to of None \<Rightarrow> now_to | Some d \<Rightarrow> d);
                   dt_from = (case parsed_from of None \<Rightarrow> now_minus_30d | Some d \<Rightarrow> d)
               in if hour dt_to = 0 \<and> minute dt_to = 0 \<and> second dt_to = 0
                     \<and> length (strip to_var) = 10
                  then Inr (dt_from, dt_to\<lparr>hour := 23, minute := 59, second := 59\<rparr>)
                  else Inr (dt_from, dt_to)))"

text \<open>
  \<open>friendly_md(ts)\<close>: \<open>datetime.fromtimestamp\<close> raises outside the years 1 to 9999
  (\<open>ValueError\<close> or \<open>OverflowError\<close>, by the platform); otherwise the text is \<open>MM-DD\<close>.
\<close>

definition two_digits :: "int \<Rightarrow> string" where
  "two_digits n = [''0123456789'' ! nat (n div 10), ''0123456789'' ! nat (n mod 10)]"

definition friendly_md :: "int \<Rightarrow> error + string" where
  "friendly_md ts =
     (if ts * 1000000 < min_epoch_us \<or> max_epoch_us < ts * 1000000
      then Inl (ValueError ''year is out of range'')
      else let dt = datetime_of_epoch_us (ts * 1000000)
           in Inr (two_digits (month dt) @ ''-'' @ two_digits (day dt)))"

text \<open>
  The loop that builds \<open>prob_lines\<close> and \<open>solved_detail_lines\<close>, over the records sorted by
  descending timestamp; a line holds \<open>(key, md, name, rating, tags)\<close>. The first
  \<open>friendly_md\<close> that raises ends the run.
\<close>

type_synonym prob_line = "string \<times> string \<times> string \<times> json_value option \<times> string list"

fun prob_lines_of :: "solved_map \<Rightarrow> error + prob_line list" where
  "prob_lines_of [] = Inr []"
| "prob_lines_of ((key, (ts, tgs, nm, rt)) # rest) =
     (case friendly_md ts of
        Inl e \<Rightarrow> Inl e
      | Inr md \<Rightarrow>
          (case prob_lines_of rest of
             Inl e \<Rightarrow> Inl e
           | Inr ls \<Rightarrow> Inr ((key, md, nm, rt, tgs) # ls)))"

text \<open>
  A run of \<open>_fetch_thread\<close>: the calls of the API helpers it reached, in order (the call
  of \<open>api_user_info\<close> is recorded whether it returns or raises), and what it hands to the
  window: the values of the report, or the exception given to \<open>_on_error\<close>. The period
  length and the solve rate are double arithmetic on the window and are not part of the
  report of the model.
\<close>

datatype net_call = UserStatus string int int | UserInfo string

record run_report =
  solved_map :: solved_map
  tag_lines :: "tag_line list"
  problems_count :: nat
  avg_problem_rating :: "rat option"
  prob_lines :: "prob_line list"
  user_rating :: "int option"
  user_max_rating :: "int option"

record run_result =
  calls :: "net_call list"
  result :: "error + run_report"

text \<open>
  The source calls \<open>api_user_info(handle)\<close> inside its own \<open>try\<close>; the file defines no
  function of that name, so the helper is a parameter: the dictionary it returns, or the
  exception the call raises. In the file as it is, the call raises \<open>NameError\<close>.
\<close>

type_synonym api_info = "string \<Rightarrow> error + (string \<times> int) list"

definition api_user_info_undefined :: api_info where
  "api_user_info_undefined handle = Inl (NameError ''name 'api_user_info' is not defined'')"

definition fetch_thread ::
  "api_status \<Rightarrow> api_info \<Rightarrow> (string \<Rightarrow> rat option) \<Rightarrow> (rat list \<Rightarrow> rat) \<Rightarrow> string
     \<Rightarrow> datetime \<Rightarrow> datetime \<Rightarrow> run_result" where
  "fetch_thread api api_user_info str_to_float round_mean handle dt_from dt_to =
     (let subs_gen = fetch_submissions_in_period api handle (Some dt_from) (Some dt_to)
                       (Some 1000) (Some 200);
          status_calls = map (\<lambda>q. UserStatus handle (req_from q) (req_count q)) (requests subs_gen)
      in case outcome subs_gen of
           Inl e \<Rightarrow> \<lparr>calls = status_calls, result = Inl e\<rparr>
         | Inr stopped \<Rightarrow>
             let solved = collect_first_ac_per_problem (emitted subs_gen);
                 agg = aggregate str_to_float solved;
                 user_info = api_user_info handle;
                 ratings = all_ratings agg
             in case prob_lines_of (sort_key (\<lambda>x. - fst (snd x)) solved) of
                  Inl e \<Rightarrow> \<lparr>calls = status_calls @ [UserInfo handle], result = Inl e\<rparr>
                | Inr pls \<Rightarrow>
                    \<lparr>calls = status_calls @ [UserInfo handle],
                     result = Inr
                       \<lparr>solved_map = solved,
                        tag_lines = tag_lines_of round_mean agg,
                        problems_count = length solved,
                        avg_problem_rating =
                          (if ratings \<noteq> [] then Some (round_mean ratings) else None),
                        prob_lines = pls,
                        user_rating =
                          (case user_info of Inl e \<Rightarrow> None | Inr d \<Rightarrow> map_of d ''rating''),
                        user_max_rating =
                          (case user_info of Inl e \<Rightarrow> None | Inr d \<Rightarrow> map_of d ''maxRating'')\<rparr>\<rparr>)"

text \<open>
  \<open>start_fetch\<close>: a warning for an empty handle, an error box for a date that does not
  parse; otherwise it clears the output, shows the status \<open>Fetching\<close> and starts the worker
  on the resolved window (\<open>Started\<close>, with the run of the worker). It does not compare the
  two bounds.
\<close>

datatype start_outcome = NoHandle | DateParseError error | Started run_result

definition start_fetch ::
  "api_status \<Rightarrow> api_info \<Rightarrow> (string \<Rightarrow> rat option) \<Rightarrow> (rat list \<Rightarrow> rat)
     \<Rightarrow> (string \<Rightarrow> iso_result option) \<Rightarrow> datetime \<Rightarrow> datetime \<Rightarrow> string \<Rightarrow> string \<Rightarrow> string
     \<Rightarrow> start_outcome" where
  "start_fetch api api_user_info str_to_float round_mean fromisoformat now_to now_minus_30d
       handle_var from_var to_var =
     (let handle = normalize_handle handle_var
      in if handle = [] then NoHandle
         else (case resolve_window fromisoformat now_to now_minus_30d from_var to_var of
                 Inl e \<Rightarrow> DateParseError e
               | Inr w \<Rightarrow>
                   Started (fetch_thread api api_user_info str_to_float round_mean handle
                              (fst w) (snd w))))"


definition now_example :: datetime where
  "now_example = mk_dt 2026 1 31 12 0 0"

definition now_minus_30d_example :: datetime where
  "now_minus_30d_example = mk_dt 2026 1 1 12 0 0"

fun is_user_status :: "net_call \<Rightarrow> bool" where
  "is_user_status (UserStatus handle i cnt) = True"
| "is_user_status (UserInfo handle) = False"

definition range_error :: error where
  "range_error = ValueError ''From date must be <= To date''"

section \<open>Properties of the reducer\<close>

lemma collect_snoc:
  "collect_first_ac_per_problem (subs @ [s]) = collect_step (collect_first_ac_per_problem subs) s"
  by (simp add: collect_first_ac_per_problem_def)

lemma collect_Nil: "collect_first_ac_per_problem [] = []"
  by (simp add: collect_first_ac_per_problem_def)

lemma finite_ac_for: "finite (ac_for subs k)"
  by (simp add: ac_for_def)

lemma ac_for_Nil: "ac_for [] k = {}"
  by (simp add: ac_for_def)

lemma ac_for_snoc:
  "ac_for (subs @ [s]) k = (if accepted s \<and> sub_key s = k then insert s (ac_for subs k) else ac_for subs k)"
  by (auto simp: ac_for_def)

lemma collect_step_distinct:
  "distinct (map fst m) \<Longrightarrow> distinct (map fst (collect_step m s))"
  by (simp add: collect_step_def Let_def distinct_update)

lemma collect_distinct: "distinct (map fst (collect_first_ac_per_problem subs))"
  by (induction subs rule: rev_induct) (simp_all add: collect_Nil collect_snoc collect_step_distinct)

text \<open>The stored timestamp of a key is the least timestamp of its accepted submissions.\<close>

lemma fst_sub_record: "fst (sub_record s) = sub_ts s"
  by (simp add: sub_record_def)

lemma collect_step_other:
  "sub_key s \<noteq> k \<Longrightarrow> map_of (collect_step m s) k = map_of m k"
  by (simp add: collect_step_def Let_def update_conv')

lemma collect_step_rejected: "\<not> accepted s \<Longrightarrow> collect_step m s = m"
  by (simp add: collect_step_def accepted_def)

lemma collect_step_same:
  "accepted s \<Longrightarrow>
     map_of (collect_step m s) (sub_key s) =
       (case map_of m (sub_key s) of
          None \<Rightarrow> Some (sub_record s)
        | Some r \<Rightarrow> if sub_ts s < fst r then Some (sub_record s) else Some r)"
  by (simp add: collect_step_def accepted_def Let_def update_conv' split: option.split)

lemma collect_ts_min:
  "map_option fst (map_of (collect_first_ac_per_problem subs) k) =
     (if ac_for subs k = {} then None else Some (Min (sub_ts ` ac_for subs k)))"
proof (induction subs rule: rev_induct)
  case Nil
  show ?case by (simp add: collect_Nil ac_for_Nil)
next
  case (snoc s subs)
  let ?m = "collect_first_ac_per_problem subs"
  note IH = snoc.IH
  show ?case
  proof (cases "accepted s \<and> sub_key s = k")
    case False
    then have "map_of (collect_step ?m s) k = map_of ?m k"
      using collect_step_other [of s k ?m] collect_step_rejected [of s ?m] by auto
    moreover have "ac_for (subs @ [s]) k = ac_for subs k"
      using False by (auto simp: ac_for_snoc)
    ultimately show ?thesis
      using IH by (simp only: collect_snoc)
  next
    case True
    then have acc: "accepted s" and key: "sub_key s = k" by simp_all
    have ins: "ac_for (subs @ [s]) k = insert s (ac_for subs k)"
      using True by (simp add: ac_for_snoc)
    have fin: "finite (sub_ts ` ac_for subs k)"
      by (simp add: finite_ac_for)
    show ?thesis
    proof (cases "map_of ?m k")
      case None
      then have emp: "ac_for subs k = {}"
        using IH by (simp split: if_splits)
      have "map_of (collect_step ?m s) k = Some (sub_record s)"
        using collect_step_same [OF acc, of ?m] None key by simp
      then show ?thesis
        by (simp add: collect_snoc ins emp fst_sub_record)
    next
      case (Some r)
      then have ne: "ac_for subs k \<noteq> {}" and r: "fst r = Min (sub_ts ` ac_for subs k)"
        using IH by (auto split: if_splits)
      have m: "Min (insert (sub_ts s) (sub_ts ` ac_for subs k)) = min (sub_ts s) (fst r)"
        using fin ne r by simp
      have "map_of (collect_step ?m s) k
              = (if sub_ts s < fst r then Some (sub_record s) else Some r)"
        using collect_step_same [OF acc, of ?m] Some key by simp
      then have "map_option fst (map_of (collect_step ?m s) k)
                   = map_option fst (if sub_ts s < fst r then Some (sub_record s) else Some r)"
        by (simp only:)
      also have "\<dots> = Some (min (sub_ts s) (fst r))"
      proof (cases "sub_ts s < fst r")
        case True
        then show ?thesis by (simp add: fst_sub_record)
      next
        case False
        then show ?thesis by simp
      qed
      finally have "map_option fst (map_of (collect_step ?m s) k) = Some (min (sub_ts s) (fst r))" .
      then show ?thesis
        using m by (simp add: collect_snoc ins)
    qed
  qed
qed

lemma collect_keys:
  "(k \<in> fst ` set (collect_first_ac_per_problem subs)) = (ac_for subs k \<noteq> {})"
proof -
  have "(k \<in> fst ` set (collect_first_ac_per_problem subs))
          = (map_of (collect_first_ac_per_problem subs) k \<noteq> None)"
    by (simp add: map_of_eq_None_iff)
  also have "\<dots> = (map_option fst (map_of (collect_first_ac_per_problem subs) k) \<noteq> None)"
    by simp
  also have "\<dots> = (ac_for subs k \<noteq> {})"
    by (simp only: collect_ts_min) simp
  finally show ?thesis .
qed

lemma foldl_collect_filter:
  "foldl collect_step m (filter accepted subs) = foldl collect_step m subs"
proof (induction subs arbitrary: m)
  case Nil
  show ?case by simp
next
  case (Cons s subs)
  show ?case
  proof (cases "accepted s")
    case True
    then show ?thesis using Cons by simp
  next
    case False
    then have "collect_step m s = m"
      by (simp add: collect_step_def accepted_def)
    then show ?thesis using False Cons by simp
  qed
qed

text \<open>Every stored record is the record of an accepted submission of that key.\<close>

lemma collect_record_from:
  "map_of (collect_first_ac_per_problem subs) k = Some r \<Longrightarrow>
     \<exists>s \<in> ac_for subs k. r = sub_record s"
proof (induction subs arbitrary: r rule: rev_induct)
  case Nil
  then show ?case by (simp add: collect_Nil)
next
  case (snoc s subs)
  show ?case
  proof (cases "collect_step (collect_first_ac_per_problem subs) s = collect_first_ac_per_problem subs")
    case True
    then have "map_of (collect_first_ac_per_problem subs) k = Some r"
      using snoc.prems by (simp add: collect_snoc)
    then obtain s' where "s' \<in> ac_for subs k" "r = sub_record s'"
      using snoc.IH by blast
    then show ?thesis by (auto simp: ac_for_snoc)
  next
    case False
    then have acc: "accepted s"
      and upd: "collect_step (collect_first_ac_per_problem subs) s
                  = AList.update (sub_key s) (sub_record s) (collect_first_ac_per_problem subs)"
      by (auto simp: collect_step_def accepted_def Let_def split: if_splits)
    show ?thesis
    proof (cases "sub_key s = k")
      case True
      then have "r = sub_record s"
        using snoc.prems upd by (simp add: collect_snoc update_conv')
      then show ?thesis using acc True by (auto simp: ac_for_snoc)
    next
      case False
      then have "map_of (collect_first_ac_per_problem subs) k = Some r"
        using snoc.prems upd by (simp add: collect_snoc update_conv')
      then obtain s' where "s' \<in> ac_for subs k" "r = sub_record s'"
        using snoc.IH by blast
      then show ?thesis by (auto simp: ac_for_snoc)
    qed
  qed
qed

lemma ac_for_perm: "mset xs = mset ys \<Longrightarrow> ac_for xs k = ac_for ys k"
  using mset_eq_setD [of xs ys] by (simp add: ac_for_def)

text \<open>
  C1. The mapping returned for a finite stream has a key exactly when an accepted
  submission derives it; the stored timestamp is the least \<open>creationTimeSeconds\<close> of the
  accepted submissions deriving the key (a missing field counting as 0, as the code
  reads it); submissions that are not accepted change nothing.
\<close>

theorem collect_first_ac_earliest:
  "(k \<in> fst ` set (collect_first_ac_per_problem subs))
      = (\<exists>s \<in> set subs. accepted s \<and> sub_key s = k)
   \<and> (\<forall>r. map_of (collect_first_ac_per_problem subs) k = Some r
          \<longrightarrow> fst r = Min (sub_ts ` {s \<in> set subs. accepted s \<and> sub_key s = k}))
   \<and> collect_first_ac_per_problem (filter accepted subs) = collect_first_ac_per_problem subs"
proof (intro conjI allI impI)
  show "(k \<in> fst ` set (collect_first_ac_per_problem subs))
          = (\<exists>s \<in> set subs. accepted s \<and> sub_key s = k)"
    by (simp only: collect_keys) (auto simp: ac_for_def)
next
  fix r
  assume r: "map_of (collect_first_ac_per_problem subs) k = Some r"
  have "map_option fst (map_of (collect_first_ac_per_problem subs) k)
          = (if ac_for subs k = {} then None else Some (Min (sub_ts ` ac_for subs k)))"
    by (rule collect_ts_min)
  then have "fst r = Min (sub_ts ` ac_for subs k)"
    using r by (simp split: if_splits)
  then show "fst r = Min (sub_ts ` {s \<in> set subs. accepted s \<and> sub_key s = k})"
    by (simp add: ac_for_def)
next
  show "collect_first_ac_per_problem (filter accepted subs) = collect_first_ac_per_problem subs"
    by (simp add: collect_first_ac_per_problem_def foldl_collect_filter)
qed

lemmas reducer_defs = collect_first_ac_per_problem_def collect_step_def sub_ts_def sub_key_def
  sub_problem_def problem_key_def str_int_def sub_record_def sub_meta_def nopid_key_def Let_def
  mk_sub_def accepted_def

lemma scenario_collect:
  "collect_first_ac_per_problem scenario_subs
     = [(''1-A'', (50, [''dp''], ''Alpha'', Some (JNum 800)))]"
  by (simp add: scenario_subs_def reducer_defs)

theorem collect_first_ac_earliest_witness:
  "''1-A'' \<in> fst ` set (collect_first_ac_per_problem scenario_subs)
   \<and> ''2-B'' \<notin> fst ` set (collect_first_ac_per_problem scenario_subs)
   \<and> map_of (collect_first_ac_per_problem scenario_subs) ''1-A''
        = Some (50, [''dp''], ''Alpha'', Some (JNum 800))
   \<and> Min (sub_ts ` {s \<in> set scenario_subs. accepted s \<and> sub_key s = ''1-A''}) = 50"
  using collect_first_ac_earliest [of "''1-A''" scenario_subs]
  by (simp add: scenario_collect)

text \<open>
  C2, as stated, fails: the reducer keeps the first submission it meets among those that
  tie on the least timestamp (the comparison is strict), so two accepted submissions of
  one key made in the same second with different tags leave different tuples, depending
  on their order.
\<close>

theorem collect_perm_counterexample:
  "mset [tie_a, tie_b] = mset [tie_b, tie_a]
   \<and> map_of (collect_first_ac_per_problem [tie_a, tie_b]) ''1-A''
        = Some (5, [''dp''], ''Alpha'', Some (JNum 800))
   \<and> map_of (collect_first_ac_per_problem [tie_b, tie_a]) ''1-A''
        = Some (5, [''greedy''], ''Alpha'', Some (JNum 800))
   \<and> map_of (collect_first_ac_per_problem [tie_a, tie_b])
        \<noteq> map_of (collect_first_ac_per_problem [tie_b, tie_a])"
proof -
  have ab: "collect_first_ac_per_problem [tie_a, tie_b]
              = [(''1-A'', (5, [''dp''], ''Alpha'', Some (JNum 800)))]"
    by (simp add: tie_a_def tie_b_def reducer_defs)
  have ba: "collect_first_ac_per_problem [tie_b, tie_a]
              = [(''1-A'', (5, [''greedy''], ''Alpha'', Some (JNum 800)))]"
    by (simp add: tie_a_def tie_b_def reducer_defs)
  have "map_of (collect_first_ac_per_problem [tie_a, tie_b]) ''1-A''
          \<noteq> map_of (collect_first_ac_per_problem [tie_b, tie_a]) ''1-A''"
    by (simp add: ab ba)
  then have "map_of (collect_first_ac_per_problem [tie_a, tie_b])
          \<noteq> map_of (collect_first_ac_per_problem [tie_b, tie_a])"
    by metis
  then show ?thesis
    by (simp add: ab ba)
qed

text \<open>
  C2, amended. For every permutation of a finite stream the reducer returns the same
  keys with the same timestamps; the whole tuples \<open>(timestamp, tags, name, rating)\<close> are
  the same whenever accepted submissions of one key that share a timestamp carry the
  same tags, name and rating.
\<close>

theorem collect_perm_invariant:
  assumes "mset xs = mset ys"
  shows "fst ` set (collect_first_ac_per_problem xs) = fst ` set (collect_first_ac_per_problem ys)
    \<and> (\<forall>k. map_option fst (map_of (collect_first_ac_per_problem xs) k)
             = map_option fst (map_of (collect_first_ac_per_problem ys) k))
    \<and> (ties_agree xs \<longrightarrow>
          map_of (collect_first_ac_per_problem xs) = map_of (collect_first_ac_per_problem ys))"
proof (intro conjI allI impI)
  have ac: "ac_for xs k = ac_for ys k" for k
    using assms by (rule ac_for_perm)
  show "fst ` set (collect_first_ac_per_problem xs) = fst ` set (collect_first_ac_per_problem ys)"
  proof (rule set_eqI)
    fix k
    show "(k \<in> fst ` set (collect_first_ac_per_problem xs))
            = (k \<in> fst ` set (collect_first_ac_per_problem ys))"
      by (simp only: collect_keys ac)
  qed
  show ts: "map_option fst (map_of (collect_first_ac_per_problem xs) k)
          = map_option fst (map_of (collect_first_ac_per_problem ys) k)" for k
    by (simp only: collect_ts_min ac)
  assume ties: "ties_agree xs"
  show "map_of (collect_first_ac_per_problem xs) = map_of (collect_first_ac_per_problem ys)"
  proof (rule ext)
    fix k
    show "map_of (collect_first_ac_per_problem xs) k = map_of (collect_first_ac_per_problem ys) k"
    proof (cases "map_of (collect_first_ac_per_problem xs) k")
      case None
      then show ?thesis using ts [of k] by simp
    next
      case (Some rx)
      then have "map_option fst (map_of (collect_first_ac_per_problem ys) k) = Some (fst rx)"
        using ts [of k] by simp
      then obtain ry where ry: "map_of (collect_first_ac_per_problem ys) k = Some ry"
        and eq: "fst rx = fst ry"
        by (cases "map_of (collect_first_ac_per_problem ys) k") simp_all
      obtain sx where sx: "sx \<in> ac_for xs k" "rx = sub_record sx"
        using collect_record_from [OF Some] by blast
      obtain sy where sy: "sy \<in> ac_for ys k" "ry = sub_record sy"
        using collect_record_from [OF ry] by blast
      have "sy \<in> ac_for xs k"
        using sy ac by simp
      then have "sub_meta sx = sub_meta sy"
        using ties sx sy eq by (auto simp: ties_agree_def ac_for_def fst_sub_record)
      then have "rx = ry"
        using sx sy eq by (simp add: sub_record_def)
      then show ?thesis using Some ry by simp
    qed
  qed
qed

theorem collect_perm_invariant_witness:
  "mset scenario_subs = mset (rev scenario_subs)
   \<and> ties_agree scenario_subs
   \<and> map_of (collect_first_ac_per_problem scenario_subs)
        = map_of (collect_first_ac_per_problem (rev scenario_subs))
   \<and> collect_first_ac_per_problem (rev scenario_subs)
        = [(''1-A'', (50, [''dp''], ''Alpha'', Some (JNum 800)))]"
proof -
  have t: "ties_agree scenario_subs"
    by (simp add: ties_agree_def scenario_subs_def reducer_defs)
  have r: "collect_first_ac_per_problem (rev scenario_subs)
             = [(''1-A'', (50, [''dp''], ''Alpha'', Some (JNum 800)))]"
    by (simp add: scenario_subs_def reducer_defs)
  show ?thesis
    using collect_perm_invariant [of scenario_subs "rev scenario_subs"] t r by simp
qed

section \<open>Properties of the fetcher\<close>

lemma scan_foldl:
  "foldl (scan_step f t) (old, out) page =
     ((if page = [] then old
       else Some (case old of None \<Rightarrow> Min (sub_ts ` set page)
                  | Some m \<Rightarrow> min m (Min (sub_ts ` set page)))),
      out @ filter (in_window f t) page)"
proof (induction page arbitrary: old out)
  case Nil
  show ?case by simp
next
  case (Cons s page)
  have step: "scan_step f t (old, out) s =
      (Some (case old of None \<Rightarrow> sub_ts s | Some m \<Rightarrow> min m (sub_ts s)),
       out @ (if in_window f t s then [s] else []))"
    by (auto simp: scan_step_def in_window_def Let_def min_def split: option.splits)
  show ?case
  proof (cases "page = []")
    case True
    then show ?thesis by (simp add: step split: option.splits)
  next
    case False
    then have "Min (insert (sub_ts s) (sub_ts ` set page)) = min (sub_ts s) (Min (sub_ts ` set page))"
      by simp
    then show ?thesis
      using False by (simp add: step Cons.IH split: option.splits) (simp add: min.assoc min.commute min.left_commute)
  qed
qed

lemma scan_page_eq:
  "scan_page f t page =
     ((if page = [] then None else Some (Min (sub_ts ` set page))), filter (in_window f t) page)"
  by (simp add: scan_page_def scan_foldl)

lemma older_than_from_iff:
  "older_than_from (fst (scan_page f t page)) f = (\<exists>fv. f = Some fv \<and> (\<exists>s \<in> set page. sub_ts s < fv))"
proof (cases "page = []")
  case True
  then show ?thesis by (simp add: scan_page_eq older_than_from_def)
next
  case False
  then have "(Min (sub_ts ` set page) < fv) = (\<exists>s \<in> set page. sub_ts s < fv)" for fv
    by (simp add: Min_less_iff)
  then show ?thesis
    using False by (auto simp: scan_page_eq older_than_from_def split: option.splits)
qed

lemma fetch_loop_max:
  "mr \<le> n \<Longrightarrow> fetch_loop api h f t ps mr i n
     = \<lparr>requests = [], emitted = [], outcome = Inr ReachedMaxRequests\<rparr>"
  by (simp add: fetch_loop.simps)

lemma fetch_loop_error:
  "\<not> mr \<le> n \<Longrightarrow> api h i ps = Inl e \<Longrightarrow> fetch_loop api h f t ps mr i n
     = \<lparr>requests = [\<lparr>req_from = i, req_count = ps, response = Inl e\<rparr>], emitted = [], outcome = Inl e\<rparr>"
  by (simp add: fetch_loop.simps)

lemma fetch_loop_empty:
  "\<not> mr \<le> n \<Longrightarrow> api h i ps = Inr [] \<Longrightarrow> fetch_loop api h f t ps mr i n
     = \<lparr>requests = [\<lparr>req_from = i, req_count = ps, response = Inr []\<rparr>], emitted = [],
        outcome = Inr NoMoreSubmissions\<rparr>"
  by (simp add: fetch_loop.simps)

lemma fetch_loop_early:
  "\<not> mr \<le> n \<Longrightarrow> api h i ps = Inr page \<Longrightarrow> page \<noteq> [] \<Longrightarrow>
   older_than_from (fst (scan_page f t page)) f \<Longrightarrow>
   fetch_loop api h f t ps mr i n
     = \<lparr>requests = [\<lparr>req_from = i, req_count = ps, response = Inr page\<rparr>],
        emitted = filter (in_window f t) page, outcome = Inr OlderThanFrom\<rparr>"
  by (simp add: fetch_loop.simps scan_page_eq)

lemma fetch_loop_next:
  "\<not> mr \<le> n \<Longrightarrow> api h i ps = Inr page \<Longrightarrow> page \<noteq> [] \<Longrightarrow>
   \<not> older_than_from (fst (scan_page f t page)) f \<Longrightarrow>
   fetch_loop api h f t ps mr i n
     = \<lparr>requests = \<lparr>req_from = i, req_count = ps, response = Inr page\<rparr>
                       # requests (fetch_loop api h f t ps mr (i + int (length page)) (n + 1)),
        emitted = filter (in_window f t) page
                    @ emitted (fetch_loop api h f t ps mr (i + int (length page)) (n + 1)),
        outcome = outcome (fetch_loop api h f t ps mr (i + int (length page)) (n + 1))\<rparr>"
  by (subst fetch_loop.simps) (simp add: scan_page_eq Let_def)

text \<open>The five ways one pass of the loop can go.\<close>

lemma fetch_loop_cases:
  obtains (stop_max) "mr \<le> n"
  | (fail) e where "\<not> mr \<le> n" "api h i ps = Inl e"
  | (no_more) "\<not> mr \<le> n" "api h i ps = Inr []"
  | (early) page where "\<not> mr \<le> n" "api h i ps = Inr page" "page \<noteq> []"
      "older_than_from (fst (scan_page f t page)) f"
  | (continue) page where "\<not> mr \<le> n" "api h i ps = Inr page" "page \<noteq> []"
      "\<not> older_than_from (fst (scan_page f t page)) f"
  by (cases "api h i ps") blast+

lemma fetch_emitted:
  "emitted (fetch_loop api h f t ps mr i n)
     = concat (map (page_window f t) (requests (fetch_loop api h f t ps mr i n)))"
proof (induction api h f t ps mr i n rule: fetch_loop.induct)
  case (1 api h f t ps mr i n)
  show ?case
  proof (cases rule: fetch_loop_cases [where mr=mr and n=n and api=api and h=h and i=i and ps=ps and f=f and t=t])
    case stop_max
    then show ?thesis by (simp add: fetch_loop_max)
  next
    case (fail e)
    then show ?thesis by (simp add: fetch_loop_error page_window_def)
  next
    case no_more
    then show ?thesis by (simp add: fetch_loop_empty page_window_def)
  next
    case (early page)
    then show ?thesis by (simp add: fetch_loop_early page_window_def)
  next
    case (continue page)
    then show ?thesis
      using "1.IH" [of page] by (simp add: fetch_loop_next page_window_def)
  qed
qed

lemma fetch_cap:
  "int (length (requests (fetch_loop api h f t ps mr i n))) \<le> max 0 (mr - n)"
proof (induction api h f t ps mr i n rule: fetch_loop.induct)
  case (1 api h f t ps mr i n)
  show ?case
  proof (cases rule: fetch_loop_cases [where mr=mr and n=n and api=api and h=h and i=i and ps=ps and f=f and t=t])
    case stop_max
    then show ?thesis by (simp add: fetch_loop_max)
  next
    case (fail e)
    then show ?thesis by (simp add: fetch_loop_error)
  next
    case no_more
    then show ?thesis by (simp add: fetch_loop_empty)
  next
    case (early page)
    then show ?thesis by (simp add: fetch_loop_early)
  next
    case (continue page)
    then show ?thesis
      using "1.IH" [of page] by (simp add: fetch_loop_next)
  qed
qed

lemma fetch_early_stop:
  assumes "k < length (requests (fetch_loop api h (Some fv) t ps mr i n))"
    and "response (requests (fetch_loop api h (Some fv) t ps mr i n) ! k) = Inr pg"
    and "\<exists>s \<in> set pg. sub_ts s < fv"
  shows "length (requests (fetch_loop api h (Some fv) t ps mr i n)) = Suc k
    \<and> outcome (fetch_loop api h (Some fv) t ps mr i n) = Inr OlderThanFrom
    \<and> (\<exists>pre. emitted (fetch_loop api h (Some fv) t ps mr i n)
                 = pre @ filter (in_window (Some fv) t) pg)"
  using assms
proof (induction api h "Some fv :: int option" t ps mr i n arbitrary: k rule: fetch_loop.induct)
  case (1 api h t ps mr i n)
  show ?case
  proof (cases rule: fetch_loop_cases [where mr=mr and n=n and api=api and h=h and i=i and ps=ps and f="Some fv" and t=t])
    case stop_max
    then show ?thesis using "1.prems" by (simp add: fetch_loop_max)
  next
    case (fail e)
    then show ?thesis using "1.prems" by (simp add: fetch_loop_error)
  next
    case no_more
    then show ?thesis using "1.prems" by (auto simp: fetch_loop_empty)
  next
    case (early page)
    then show ?thesis using "1.prems" by (simp add: fetch_loop_early)
  next
    case (continue page)
    let ?r = "fetch_loop api h (Some fv) t ps mr (i + int (length page)) (n + 1)"
    show ?thesis
    proof (cases k)
      case 0
      then have "pg = page"
        using "1.prems"(2) continue by (simp add: fetch_loop_next)
      then have "older_than_from (fst (scan_page (Some fv) t page)) (Some fv)"
        using "1.prems"(3) by (simp add: older_than_from_iff)
      then show ?thesis using continue by simp
    next
      case (Suc k')
      have a: "k' < length (requests ?r)"
        using "1.prems"(1) continue Suc by (simp add: fetch_loop_next)
      have b: "response (requests ?r ! k') = Inr pg"
        using "1.prems"(2) continue Suc by (simp add: fetch_loop_next)
      have "length (requests ?r) = Suc k' \<and> outcome ?r = Inr OlderThanFrom
              \<and> (\<exists>pre. emitted ?r = pre @ filter (in_window (Some fv) t) pg)"
        using "1.hyps" [OF continue(1) continue(2) continue(3) continue(4) a b "1.prems"(3)] .
      then show ?thesis
        using continue Suc by (auto simp: fetch_loop_next)
    qed
  qed
qed

lemma fetch_trace:
  "q \<in> set (requests (fetch_loop api h f t ps mr i n)) \<Longrightarrow>
     response q = api h (req_from q) ps \<and> req_count q = ps"
proof (induction api h f t ps mr i n rule: fetch_loop.induct)
  case (1 api h f t ps mr i n)
  show ?case
  proof (cases rule: fetch_loop_cases [where mr=mr and n=n and api=api and h=h and i=i and ps=ps and f=f and t=t])
    case stop_max
    then show ?thesis using "1.prems" by (simp add: fetch_loop_max)
  next
    case (fail e)
    then show ?thesis using "1.prems" by (simp add: fetch_loop_error)
  next
    case no_more
    then show ?thesis using "1.prems" by (simp add: fetch_loop_empty)
  next
    case (early page)
    then show ?thesis using "1.prems" by (simp add: fetch_loop_early)
  next
    case (continue page)
    then show ?thesis
      using "1.IH" [of page] "1.prems" by (auto simp: fetch_loop_next)
  qed
qed

lemmas date_defs = timestamp_int_def py_trunc_div_def epoch_us_def ymd2ord_def
  days_before_month_def days_before_year_def days_in_month_def is_leap_def mk_dt_def
  upto_rec_numeral Let_def

lemma ts50: "timestamp_int (mk_dt 1970 1 1 0 0 50) = 50"
  by (simp add: date_defs)

lemma ts0: "timestamp_int (mk_dt 1970 1 1 0 0 0) = 0"
  by (simp add: date_defs)

lemma sub_ts_sub_at: "sub_ts (sub_at n) = n"
  by (simp add: sub_at_def mk_sub_def sub_ts_def)

lemma sub_ts_no_ts: "sub_ts no_ts_sub = 0"
  by (simp add: no_ts_sub_def sub_at_def mk_sub_def sub_ts_def)

lemma two_page_run:
  "fetch_submissions_in_period two_page_api ''x'' (Some (mk_dt 1970 1 1 0 0 50)) None None None
     = \<lparr>requests = [\<lparr>req_from = 1, req_count = 1000, response = Inr [sub_at 100, sub_at 10]\<rparr>],
        emitted = [sub_at 100], outcome = Inr OlderThanFrom\<rparr>"
  by (simp add: fetch_submissions_in_period_def ts50 fetch_loop.simps two_page_api_def
      scan_page_eq older_than_from_def in_window_def sub_ts_sub_at)

lemma two_page_run_all:
  "fetch_submissions_in_period two_page_api ''x'' None None None None
     = \<lparr>requests = [\<lparr>req_from = 1, req_count = 1000, response = Inr [sub_at 100, sub_at 10]\<rparr>,
                    \<lparr>req_from = 3, req_count = 1000, response = Inr [sub_at 5]\<rparr>,
                    \<lparr>req_from = 4, req_count = 1000, response = Inr []\<rparr>],
        emitted = [sub_at 100, sub_at 10, sub_at 5], outcome = Inr NoMoreSubmissions\<rparr>"
  by (simp add: fetch_submissions_in_period_def fetch_loop.simps two_page_api_def
      scan_page_eq older_than_from_def in_window_def sub_ts_sub_at)

lemma no_ts_run_epoch:
  "fetch_submissions_in_period no_ts_api ''x'' (Some (mk_dt 1970 1 1 0 0 0)) None None None
     = \<lparr>requests = [\<lparr>req_from = 1, req_count = 1000, response = Inr [sub_at 100, no_ts_sub]\<rparr>,
                    \<lparr>req_from = 3, req_count = 1000, response = Inr []\<rparr>],
        emitted = [sub_at 100, no_ts_sub], outcome = Inr NoMoreSubmissions\<rparr>"
  by (simp add: fetch_submissions_in_period_def ts0 fetch_loop.simps no_ts_api_def
      scan_page_eq older_than_from_def in_window_def sub_ts_sub_at sub_ts_no_ts)

lemma fetch_endless:
  assumes "\<And>i. api h i ps = Inr page" and "page \<noteq> []"
  shows "length (requests (fetch_loop api h None t ps mr i n)) = nat (mr - n)
       \<and> outcome (fetch_loop api h None t ps mr i n) = Inr ReachedMaxRequests"
  using assms
proof (induction api h "None :: int option" t ps mr i n rule: fetch_loop.induct)
  case (1 api h t ps mr i n)
  have nold: "\<not> older_than_from (fst (scan_page None t page)) None"
    by (simp add: older_than_from_def split: option.splits)
  show ?case
  proof (cases "mr \<le> n")
    case True
    then show ?thesis by (simp add: fetch_loop_max)
  next
    case False
    have api: "api h i ps = Inr page" by (rule "1.prems"(1))
    have "length (requests (fetch_loop api h None t ps mr (i + int (length page)) (n + 1)))
            = nat (mr - (n + 1))
        \<and> outcome (fetch_loop api h None t ps mr (i + int (length page)) (n + 1))
            = Inr ReachedMaxRequests"
      using "1.hyps" [OF False api "1.prems"(2) nold "1.prems"(1) "1.prems"(2)] .
    then show ?thesis
      using False api "1.prems"(2) nold fetch_loop_next [of mr n api h i ps page None t]
      by (simp add: Suc_nat_eq_nat_zadd1)
  qed
qed

lemma endless_run:
  "length (requests (fetch_submissions_in_period endless_api ''x'' None None None None)) = 100
   \<and> outcome (fetch_submissions_in_period endless_api ''x'' None None None None) = Inr ReachedMaxRequests"
  using fetch_endless [of endless_api "''x''" 1000 "[sub_at 100]" None 100 1 0]
  by (simp add: fetch_submissions_in_period_def endless_api_def)

lemma fetch_range_error:
  "datetime_gt dt_from dt_to \<Longrightarrow>
     fetch_submissions_in_period api h (Some dt_from) (Some dt_to) ps mr
       = \<lparr>requests = [], emitted = [], outcome = Inl range_error\<rparr>"
  by (simp add: fetch_submissions_in_period_def range_error_def)

lemma fetch_period_loop:
  "\<not> (case dt_from of None \<Rightarrow> False
        | Some f \<Rightarrow> (case dt_to of None \<Rightarrow> False | Some t \<Rightarrow> datetime_gt f t)) \<Longrightarrow>
     fetch_submissions_in_period api h dt_from dt_to ps mr
       = fetch_loop api h (map_option timestamp_int dt_from) (map_option timestamp_int dt_to)
           (case ps of None \<Rightarrow> 1000 | Some n \<Rightarrow> n) (case mr of None \<Rightarrow> 100 | Some n \<Rightarrow> n) 1 0"
  by (simp add: fetch_submissions_in_period_def)

lemma fetch_period_cases:
  obtains (invalid) f t where "dt_from = Some f" "dt_to = Some t" "datetime_gt f t"
      "fetch_submissions_in_period api h dt_from dt_to ps mr
         = \<lparr>requests = [], emitted = [], outcome = Inl range_error\<rparr>"
  | (loop) "fetch_submissions_in_period api h dt_from dt_to ps mr
       = fetch_loop api h (map_option timestamp_int dt_from) (map_option timestamp_int dt_to)
           (case ps of None \<Rightarrow> 1000 | Some n \<Rightarrow> n) (case mr of None \<Rightarrow> 100 | Some n \<Rightarrow> n) 1 0"
proof (cases "case dt_from of None \<Rightarrow> False
        | Some f \<Rightarrow> (case dt_to of None \<Rightarrow> False | Some t \<Rightarrow> datetime_gt f t)")
  case True
  then obtain f t where "dt_from = Some f" "dt_to = Some t" "datetime_gt f t"
    by (auto split: option.splits)
  then show ?thesis
    using invalid fetch_range_error by blast
next
  case False
  then show ?thesis
    using loop fetch_period_loop by blast
qed

text \<open>
  C3. When the least \<open>creationTimeSeconds\<close> of the page a request returned is below the
  from bound, that request is the last one, and the submissions of its page that lie in
  the window are still the last ones yielded.
\<close>

theorem fetch_stops_after_older_page:
  assumes "r = fetch_submissions_in_period api h (Some dt_from) dt_to page_size max_requests"
    and "n < length (requests r)"
    and "response (requests r ! n) = Inr page"
    and "page \<noteq> []"
    and "Min (sub_ts ` set page) < timestamp_int dt_from"
  shows "length (requests r) = Suc n
    \<and> outcome r = Inr OlderThanFrom
    \<and> (\<exists>pre. emitted r
          = pre @ filter (in_window (Some (timestamp_int dt_from)) (map_option timestamp_int dt_to)) page)"
proof (cases rule: fetch_period_cases [where dt_from="Some dt_from" and dt_to=dt_to and api=api
      and h=h and ps=page_size and mr=max_requests])
  case (invalid f t)
  then show ?thesis using assms(1,2) by simp
next
  case loop
  have ex: "\<exists>s \<in> set page. sub_ts s < timestamp_int dt_from"
    using assms(4,5) by (simp add: Min_less_iff)
  show ?thesis
    using fetch_early_stop [of n api h "timestamp_int dt_from" "map_option timestamp_int dt_to" _ _ 1 0 page]
      assms(1,2,3) ex loop by simp
qed

theorem fetch_stops_after_older_page_witness:
  "Min (sub_ts ` set [sub_at 100, sub_at 10]) < timestamp_int (mk_dt 1970 1 1 0 0 50)
   \<and> requests (fetch_submissions_in_period two_page_api ''x'' (Some (mk_dt 1970 1 1 0 0 50)) None None None)
       = [\<lparr>req_from = 1, req_count = 1000, response = Inr [sub_at 100, sub_at 10]\<rparr>]
   \<and> outcome (fetch_submissions_in_period two_page_api ''x'' (Some (mk_dt 1970 1 1 0 0 50)) None None None)
       = Inr OlderThanFrom
   \<and> emitted (fetch_submissions_in_period two_page_api ''x'' (Some (mk_dt 1970 1 1 0 0 50)) None None None)
       = [sub_at 100]"
proof -
  let ?r = "fetch_submissions_in_period two_page_api ''x'' (Some (mk_dt 1970 1 1 0 0 50)) None None None"
  have m: "Min (sub_ts ` set [sub_at 100, sub_at 10]) < timestamp_int (mk_dt 1970 1 1 0 0 50)"
    by (simp add: ts50 sub_ts_sub_at)
  have n: "0 < length (requests ?r)"
    and p: "response (requests ?r ! 0) = Inr [sub_at 100, sub_at 10]"
    by (simp_all add: two_page_run)
  have "length (requests ?r) = Suc 0 \<and> outcome ?r = Inr OlderThanFrom
    \<and> (\<exists>pre. emitted ?r = pre @ filter (in_window (Some (timestamp_int (mk_dt 1970 1 1 0 0 50)))
                  (map_option timestamp_int None)) [sub_at 100, sub_at 10])"
    using fetch_stops_after_older_page [OF refl n p _ m] by simp
  then show ?thesis
    using m by (simp add: two_page_run)
qed


lemma fetch_period_cap:
  "int (length (requests (fetch_submissions_in_period api h dt_from dt_to ps mr)))
     \<le> max 0 (case mr of None \<Rightarrow> 100 | Some m \<Rightarrow> m)"
proof (cases rule: fetch_period_cases [where dt_from=dt_from and dt_to=dt_to and api=api
      and h=h and ps=ps and mr=mr])
  case (invalid f t)
  then show ?thesis by simp
next
  case loop
  show ?thesis
    using fetch_cap [of api h "map_option timestamp_int dt_from" "map_option timestamp_int dt_to"
        "case ps of None \<Rightarrow> 1000 | Some n \<Rightarrow> n" "case mr of None \<Rightarrow> 100 | Some n \<Rightarrow> n" 1 0] loop
    by simp
qed

lemma fetch_thread_calls:
  "filter is_user_status (calls (fetch_thread api info p rnd h f t))
     = map (\<lambda>q. UserStatus h (req_from q) (req_count q))
         (requests (fetch_submissions_in_period api h (Some f) (Some t) (Some 1000) (Some 200)))"
  by (simp add: fetch_thread_def Let_def filter_map comp_def split: sum.splits)

text \<open>
  C4, as stated, fails in its last part: the maximum request count of
  \<open>fetch_submissions_in_period\<close> defaults to 100. A call that leaves it out, on a history
  that never ends, stops after 100 requests.
\<close>

theorem fetch_default_cap_counterexample:
  "length (requests (fetch_submissions_in_period endless_api ''x'' None None None None)) = 100
   \<and> outcome (fetch_submissions_in_period endless_api ''x'' None None None None)
       = Inr ReachedMaxRequests
   \<and> length (requests (fetch_submissions_in_period endless_api ''x'' None None None None)) \<noteq> 200"
  using fetch_endless [of endless_api "''x''" 1000 "[sub_at 100]" None 100 1 0]
  by (simp add: fetch_submissions_in_period_def endless_api_def)

text \<open>
  C4, amended. \<open>fetch_submissions_in_period\<close> issues at most \<open>max_requests\<close> page requests
  (none when \<open>max_requests\<close> is not positive) and then stops; \<open>max_requests\<close> is 100 when the
  caller leaves it out, and the run of \<open>_fetch_thread\<close> passes 200, so a run issues at most
  200 page requests.
\<close>

theorem fetch_request_cap:
  "int (length (requests (fetch_submissions_in_period api h dt_from dt_to ps mr)))
     \<le> max 0 (case mr of None \<Rightarrow> 100 | Some m \<Rightarrow> m)
   \<and> length (filter is_user_status (calls (fetch_thread api info p rnd h f t))) \<le> 200"
proof
  show "int (length (requests (fetch_submissions_in_period api h dt_from dt_to ps mr)))
          \<le> max 0 (case mr of None \<Rightarrow> 100 | Some m \<Rightarrow> m)"
    by (rule fetch_period_cap)
  show "length (filter is_user_status (calls (fetch_thread api info p rnd h f t))) \<le> 200"
    using fetch_period_cap [of api h "Some f" "Some t" "Some 1000" "Some 200"]
    by (simp add: fetch_thread_calls)
qed

theorem fetch_request_cap_witness:
  "length (requests (fetch_submissions_in_period endless_api ''x'' None None None (Some 3))) = 3
   \<and> outcome (fetch_submissions_in_period endless_api ''x'' None None None (Some 3))
       = Inr ReachedMaxRequests
   \<and> length (requests (fetch_submissions_in_period endless_api ''x'' None None None (Some (- 5)))) = 0"
  using fetch_request_cap [of endless_api "''x''" None None None "Some (- 5)"]
    fetch_endless [of endless_api "''x''" 1000 "[sub_at 100]" None 3 1 0]
  by (simp add: fetch_submissions_in_period_def endless_api_def)

text \<open>
  C7, amended. When the resolved from is later than the resolved to, the generator raises
  the range error when it is first advanced: no page request is issued and nothing is
  yielded, and the run of the worker ends with that error without any call. \<open>start_fetch\<close>
  itself does not refuse such a window: for a handle that is not empty it starts the
  worker, whose run is the one just described.
\<close>

theorem invalid_range_fails_first:
  assumes "datetime_gt dt_from dt_to"
  shows "fetch_submissions_in_period api h (Some dt_from) (Some dt_to) ps mr
           = \<lparr>requests = [], emitted = [], outcome = Inl (ValueError ''From date must be <= To date'')\<rparr>
    \<and> fetch_thread api info p rnd h dt_from dt_to
           = \<lparr>calls = [], result = Inl (ValueError ''From date must be <= To date'')\<rparr>
    \<and> (normalize_handle handle_var \<noteq> []
           \<and> resolve_window parse_iso now_to now_minus_30d from_var to_var = Inr (dt_from, dt_to)
         \<longrightarrow> start_fetch api info p rnd parse_iso now_to now_minus_30d handle_var from_var to_var
               = Started \<lparr>calls = [],
                           result = Inl (ValueError ''From date must be <= To date'')\<rparr>)"
  using assms
  by (simp add: start_fetch_def Let_def fetch_thread_def fetch_submissions_in_period_def)

theorem invalid_range_fails_first_witness:
  "datetime_gt (mk_dt 2024 1 2 0 0 0) (mk_dt 2024 1 1 23 59 59)
   \<and> requests (fetch_submissions_in_period endless_api ''x'' (Some (mk_dt 2024 1 2 0 0 0))
        (Some (mk_dt 2024 1 1 23 59 59)) None None) = []
   \<and> calls (fetch_thread endless_api api_user_info_undefined no_float exact_mean ''x''
        (mk_dt 2024 1 2 0 0 0) (mk_dt 2024 1 1 23 59 59)) = []
   \<and> result (fetch_thread endless_api api_user_info_undefined no_float exact_mean ''x''
        (mk_dt 2024 1 2 0 0 0) (mk_dt 2024 1 1 23 59 59))
       = Inl (ValueError ''From date must be <= To date'')"
proof -
  have gt: "datetime_gt (mk_dt 2024 1 2 0 0 0) (mk_dt 2024 1 1 23 59 59)"
    by (simp add: datetime_gt_def dt_fields_def mk_dt_def)
  show ?thesis
    using invalid_range_fails_first [OF gt, where api=endless_api and h="''x''" and ps=None
        and mr=None and info=api_user_info_undefined and p=no_float and rnd=exact_mean] gt
    by simp
qed


lemma fetch_period_emitted_window:
  "s \<in> set (emitted (fetch_submissions_in_period api h dt_from dt_to ps mr)) \<Longrightarrow>
     in_window (map_option timestamp_int dt_from) (map_option timestamp_int dt_to) s"
proof (cases rule: fetch_period_cases [where dt_from=dt_from and dt_to=dt_to and api=api
      and h=h and ps=ps and mr=mr])
  case (invalid f t)
  assume "s \<in> set (emitted (fetch_submissions_in_period api h dt_from dt_to ps mr))"
  then show ?thesis using invalid by simp
next
  case loop
  assume "s \<in> set (emitted (fetch_submissions_in_period api h dt_from dt_to ps mr))"
  then show ?thesis
    unfolding loop
    by (subst (asm) fetch_emitted) (auto simp: page_window_def split: sum.splits)
qed

text \<open>
  C9, as stated, fails for a from bound at or before the epoch: with from 1970-01-01
  00:00:00 the bound is 0, a submission without \<open>creationTimeSeconds\<close> is not below it,
  so it is yielded and the fetch goes on to the next page.
\<close>

theorem missing_timestamp_counterexample:
  "creationTimeSeconds no_ts_sub = None
   \<and> timestamp_int (mk_dt 1970 1 1 0 0 0) = 0
   \<and> emitted (fetch_submissions_in_period no_ts_api ''x'' (Some (mk_dt 1970 1 1 0 0 0)) None None None)
       = [sub_at 100, no_ts_sub]
   \<and> map req_from
        (requests (fetch_submissions_in_period no_ts_api ''x'' (Some (mk_dt 1970 1 1 0 0 0)) None None None))
       = [1, 3]
   \<and> outcome (fetch_submissions_in_period no_ts_api ''x'' (Some (mk_dt 1970 1 1 0 0 0)) None None None)
       = Inr NoMoreSubmissions"
  by (simp add: no_ts_run_epoch ts0) (simp add: no_ts_sub_def)

text \<open>
  C9, amended. A submission without \<open>creationTimeSeconds\<close> has timestamp 0 throughout.
  When the from bound is later than the epoch (its timestamp is positive) the submission
  is never yielded, the oldest timestamp of a page holding it is at most 0 (0 itself when
  the page has no negative timestamp), and that page is the last one requested. In the
  reducer an accepted such submission leaves its key with a timestamp of at most 0: 0
  itself unless an accepted submission of the key has a negative timestamp.
\<close>

theorem missing_timestamp_is_zero:
  assumes "creationTimeSeconds s = None"
    and "r = fetch_submissions_in_period api h (Some dt_from) dt_to ps mr"
  shows "sub_ts s = 0
    \<and> (0 < timestamp_int dt_from \<longrightarrow> s \<notin> set (emitted r))
    \<and> (\<forall>n page. 0 < timestamp_int dt_from \<and> n < length (requests r)
           \<and> response (requests r ! n) = Inr page \<and> s \<in> set page
         \<longrightarrow> fst (scan_page (Some (timestamp_int dt_from)) (map_option timestamp_int dt_to) page)
               = Some (Min (sub_ts ` set page))
             \<and> Min (sub_ts ` set page) \<le> 0
             \<and> ((\<forall>x \<in> set page. 0 \<le> sub_ts x) \<longrightarrow> Min (sub_ts ` set page) = 0)
             \<and> length (requests r) = Suc n \<and> outcome r = Inr OlderThanFrom)
    \<and> (\<forall>subs. accepted s \<and> s \<in> set subs
         \<longrightarrow> (\<exists>rec. map_of (collect_first_ac_per_problem subs) (sub_key s) = Some rec
                \<and> fst rec \<le> 0
                \<and> ((\<forall>x \<in> set subs. accepted x \<and> sub_key x = sub_key s \<longrightarrow> 0 \<le> sub_ts x)
                     \<longrightarrow> fst rec = 0)))"
proof (intro conjI allI impI)
  show z: "sub_ts s = 0"
    using assms(1) by (simp add: sub_ts_def)
  {
    assume pos: "0 < timestamp_int dt_from"
    show "s \<notin> set (emitted r)"
    proof
      assume "s \<in> set (emitted r)"
      then have "in_window (map_option timestamp_int (Some dt_from)) (map_option timestamp_int dt_to) s"
        unfolding assms(2) by (rule fetch_period_emitted_window)
      then show False
        using pos z by (simp add: in_window_def)
    qed
  }
  {
    fix n page
    assume h: "0 < timestamp_int dt_from \<and> n < length (requests r)
           \<and> response (requests r ! n) = Inr page \<and> s \<in> set page"
    then have ne: "page \<noteq> []" by auto
    have le: "Min (sub_ts ` set page) \<le> sub_ts s"
      using h by simp
    show "fst (scan_page (Some (timestamp_int dt_from)) (map_option timestamp_int dt_to) page)
               = Some (Min (sub_ts ` set page))"
      using ne by (simp add: scan_page_eq)
    show m0: "Min (sub_ts ` set page) \<le> 0"
      using le z by simp
    have lt: "Min (sub_ts ` set page) < timestamp_int dt_from"
      using m0 h by simp
    have stop: "length (requests r) = Suc n \<and> outcome r = Inr OlderThanFrom
      \<and> (\<exists>pre. emitted r = pre @ filter (in_window (Some (timestamp_int dt_from))
                   (map_option timestamp_int dt_to)) page)"
    proof (cases rule: fetch_period_cases [where dt_from="Some dt_from" and dt_to=dt_to and api=api
          and h=h and ps=ps and mr=mr])
      case (invalid f t)
      then show ?thesis using assms(2) h by simp
    next
      case loop
      have ex: "\<exists>x \<in> set page. sub_ts x < timestamp_int dt_from"
        using ne lt by (simp add: Min_less_iff)
      show ?thesis
        using fetch_early_stop [of n api h "timestamp_int dt_from" "map_option timestamp_int dt_to" _ _ 1 0 page]
          assms(2) h ex loop by simp
    qed
    show "length (requests r) = Suc n" using stop by simp
    show "outcome r = Inr OlderThanFrom" using stop by simp
    {
      assume "\<forall>x \<in> set page. 0 \<le> sub_ts x"
      then have "0 \<le> Min (sub_ts ` set page)"
        using ne by simp
      then show "Min (sub_ts ` set page) = 0"
        using m0 by simp
    }
  }
  {
    fix subs
    assume a: "accepted s \<and> s \<in> set subs"
    then have mem: "s \<in> ac_for subs (sub_key s)"
      by (simp add: ac_for_def)
    then have ne: "ac_for subs (sub_key s) \<noteq> {}" by auto
    have "map_option fst (map_of (collect_first_ac_per_problem subs) (sub_key s))
            = Some (Min (sub_ts ` ac_for subs (sub_key s)))"
      using ne by (simp only: collect_ts_min) simp
    then obtain rec where rec: "map_of (collect_first_ac_per_problem subs) (sub_key s) = Some rec"
      and f: "fst rec = Min (sub_ts ` ac_for subs (sub_key s))"
      by (cases "map_of (collect_first_ac_per_problem subs) (sub_key s)") simp_all
    have le: "fst rec \<le> 0"
      using f mem z finite_ac_for [of subs "sub_key s"] by (metis Min_le finite_imageI imageI)
    have ge: "(\<forall>x \<in> set subs. accepted x \<and> sub_key x = sub_key s \<longrightarrow> 0 \<le> sub_ts x) \<longrightarrow> 0 \<le> fst rec"
      using f ne finite_ac_for [of subs "sub_key s"] by (auto simp: ac_for_def)
    show "\<exists>rec. map_of (collect_first_ac_per_problem subs) (sub_key s) = Some rec
                \<and> fst rec \<le> 0
                \<and> ((\<forall>x \<in> set subs. accepted x \<and> sub_key x = sub_key s \<longrightarrow> 0 \<le> sub_ts x)
                     \<longrightarrow> fst rec = 0)"
      using rec le ge by auto
  }
qed

lemma no_ts_run_50:
  "fetch_submissions_in_period no_ts_api ''x'' (Some (mk_dt 1970 1 1 0 0 50)) None None None
     = \<lparr>requests = [\<lparr>req_from = 1, req_count = 1000, response = Inr [sub_at 100, no_ts_sub]\<rparr>],
        emitted = [sub_at 100], outcome = Inr OlderThanFrom\<rparr>"
  by (simp add: fetch_submissions_in_period_def ts50 fetch_loop.simps no_ts_api_def
      scan_page_eq older_than_from_def in_window_def sub_ts_sub_at sub_ts_no_ts)

theorem missing_timestamp_is_zero_witness:
  "creationTimeSeconds no_ts_sub = None
   \<and> 0 < timestamp_int (mk_dt 1970 1 1 0 0 50)
   \<and> sub_ts no_ts_sub = 0
   \<and> no_ts_sub \<notin> set (emitted (fetch_submissions_in_period no_ts_api ''x''
                            (Some (mk_dt 1970 1 1 0 0 50)) None None None))
   \<and> outcome (fetch_submissions_in_period no_ts_api ''x'' (Some (mk_dt 1970 1 1 0 0 50)) None None None)
       = Inr OlderThanFrom
   \<and> accepted no_ts_sub
   \<and> map_of (collect_first_ac_per_problem [sub_at 100, no_ts_sub]) (sub_key no_ts_sub)
       = Some (0, [''dp''], ''Alpha'', Some (JNum 800))"
proof -
  have a: "creationTimeSeconds no_ts_sub = None"
    by (simp add: no_ts_sub_def)
  have c: "collect_first_ac_per_problem [sub_at 100, no_ts_sub]
             = [(''1-A'', (0, [''dp''], ''Alpha'', Some (JNum 800)))]"
    by (simp add: no_ts_sub_def sub_at_def reducer_defs)
  have k: "sub_key no_ts_sub = ''1-A''"
    by (simp add: no_ts_sub_def sub_at_def reducer_defs)
  have acc: "accepted no_ts_sub"
    by (simp add: no_ts_sub_def sub_at_def reducer_defs)
  show ?thesis
    using missing_timestamp_is_zero [where s=no_ts_sub and api=no_ts_api and h="''x''"
        and dt_from="mk_dt 1970 1 1 0 0 50" and dt_to=None and ps=None and mr=None, OF a refl]
      acc a
    by (simp add: no_ts_run_50 ts50 c k)
qed

section \<open>Properties of the aggregator\<close>

lemma tag_step_cnt:
  "cnt_of (tag_step rv st tag) t = cnt_of st t + (if t = tag then 1 else 0)"
  by (simp add: cnt_of_def tag_step_def Let_def update_conv' split: option.splits)




lemma tag_step_all: "all_ratings (tag_step rv st tag) = all_ratings st"
  by (simp add: tag_step_def Let_def split: option.splits)

lemma tag_step_none_ratings: "tag_ratings (tag_step None st tag) = tag_ratings st"
  by (simp add: tag_step_def Let_def)

lemma tags_cnt:
  "cnt_of (foldl (tag_step rv) st tgs) t = cnt_of st t + int (count_list tgs t)"
  by (induction tgs arbitrary: st) (simp_all add: tag_step_cnt)




lemma tags_all: "all_ratings (foldl (tag_step rv) st tgs) = all_ratings st"
  by (induction tgs arbitrary: st) (simp_all add: tag_step_all)

lemma tags_none_ratings: "tag_ratings (foldl (tag_step None) st tgs) = tag_ratings st"
  by (induction tgs arbitrary: st) (simp_all add: tag_step_none_ratings)

lemma cnt_of_all [simp]: "cnt_of (st\<lparr>all_ratings := x\<rparr>) t = cnt_of st t"
  by (simp add: cnt_of_def)

lemma ratings_of_all [simp]: "ratings_of (st\<lparr>all_ratings := x\<rparr>) t = ratings_of st t"
  by (simp add: ratings_of_def)

lemma agg_step_cnt:
  "cnt_of (agg_step p st (ts, tgs, nm, rt)) t = cnt_of st t + int (count_list tgs t)"
  by (simp add: agg_step_def Let_def tags_cnt split: option.splits)




lemma agg_step_all:
  "all_ratings (agg_step p st (ts, tgs, nm, rt))
     = all_ratings st @ (case rating_val_of p rt of None \<Rightarrow> [] | Some v \<Rightarrow> [v])"
  by (simp add: agg_step_def Let_def tags_all split: option.splits)






lemma recs_all:
  "all_ratings (foldl (agg_step p) st recs)
     = all_ratings st
       @ concat (map (\<lambda>r. case rating_val_of p (snd (snd (snd r))) of None \<Rightarrow> [] | Some v \<Rightarrow> [v]) recs)"
proof (induction recs arbitrary: st)
  case Nil
  show ?case by simp
next
  case (Cons r recs)
  obtain ts tgs nm rt where r: "r = (ts, tgs, nm, rt)" by (cases r) auto
  show ?case by (simp add: Cons.IH r agg_step_all)
qed















lemma length_sorted_tag_counts: "length (sorted_tag_counts xs) = length xs"
  by (simp add: sorted_tag_counts_def)






lemmas agg_defs = aggregate_def agg_step_def tag_step_def rating_val_of_def Let_def no_float_def
  tag_lines_of_def tag_line_of_def sorted_tag_counts_def py_int_def exact_mean_def









lemma aggregate_replace:
  "(\<And>st. agg_step p st r = agg_step p st r') \<Longrightarrow>
     aggregate p (pre @ [(k, r)] @ post) = aggregate p (pre @ [(k, r')] @ post)"
  by (simp add: aggregate_def)

text \<open>
  C10. A rating that is present but that \<open>float\<close> cannot convert is treated as absent:
  the step of the aggregation for the record is the step for the same record without a
  rating, it adds the record's tags to the counts, and it leaves every rating list and
  the global rating list as they were.
\<close>

theorem unconvertible_rating_is_absent:
  assumes "py_float str_to_float v = None"
  shows "agg_step str_to_float st (ts, tgs, nm, Some v) = agg_step str_to_float st (ts, tgs, nm, None)
    \<and> (\<forall>t. cnt_of (agg_step str_to_float st (ts, tgs, nm, Some v)) t
             = cnt_of st t + int (count_list tgs t))
    \<and> tag_ratings (agg_step str_to_float st (ts, tgs, nm, Some v)) = tag_ratings st
    \<and> all_ratings (agg_step str_to_float st (ts, tgs, nm, Some v)) = all_ratings st
    \<and> aggregate str_to_float (pre @ [(k, (ts, tgs, nm, Some v))] @ post)
        = aggregate str_to_float (pre @ [(k, (ts, tgs, nm, None))] @ post)"
proof -
  have rv: "rating_val_of str_to_float (Some v) = None"
    using assms by (simp add: rating_val_of_def)
  have eq: "agg_step str_to_float st (ts, tgs, nm, Some v) = agg_step str_to_float st (ts, tgs, nm, None)"
    for st
    using rv by (simp add: agg_step_def rating_val_of_def)
  have tr: "tag_ratings (agg_step str_to_float st (ts, tgs, nm, Some v)) = tag_ratings st"
    using rv by (simp add: agg_step_def tags_none_ratings)
  have ar: "all_ratings (agg_step str_to_float st (ts, tgs, nm, Some v)) = all_ratings st"
    using rv by (simp add: agg_step_all)
  show ?thesis
    using eq tr ar aggregate_replace [OF eq] by (simp add: agg_step_cnt)
qed

theorem unconvertible_rating_is_absent_witness:
  "py_float no_float (JStr ''unrated'') = None
   \<and> aggregate no_float [(''3-C'', (70, [''strings'', ''dp''], ''Gamma'', Some (JStr ''unrated'')))]
       = \<lparr>tag_counts = [(''strings'', 1), (''dp'', 1)], tag_ratings = [], all_ratings = []\<rparr>
   \<and> aggregate no_float [(''3-C'', (70, [''strings'', ''dp''], ''Gamma'', None))]
       = \<lparr>tag_counts = [(''strings'', 1), (''dp'', 1)], tag_ratings = [], all_ratings = []\<rparr>"
proof -
  have a: "py_float no_float (JStr ''unrated'') = None"
    by (simp add: no_float_def)
  have b: "aggregate no_float [(''3-C'', (70, [''strings'', ''dp''], ''Gamma'', None))]
       = \<lparr>tag_counts = [(''strings'', 1), (''dp'', 1)], tag_ratings = [], all_ratings = []\<rparr>"
    by (simp add: agg_defs)
  show ?thesis
    using unconvertible_rating_is_absent [OF a, where pre="[]" and post="[]" and k="''3-C''"
        and ts=70 and tgs="[''strings'', ''dp'']" and nm="''Gamma''"] a b
    by simp
qed

section \<open>Properties of the window and the run\<close>

lemmas parse_defs = parse_date_maybe_def strip_def py_isspace_def count_char_def strptime_ymd_def
  month_chars_ok_def day_chars_ok_def is_digit_def digits_val_def digit_val_def days_in_month_def
  is_leap_def mk_dt_def Let_def






lemma reversed_window:
  "resolve_window parse_iso now_to now_minus_30d ''2024-01-02'' ''2024-01-01''
     = Inr (mk_dt 2024 1 2 0 0 0, mk_dt 2024 1 1 23 59 59)"
  by (simp add: resolve_window_def parse_defs)







lemma handle_x: "normalize_handle ''x'' = ''x''"
  by (simp add: normalize_handle_def strip_def py_isspace_def)


text \<open>
  C7, as stated, fails in its last part: \<open>start_fetch\<close> does not compare the bounds. With
  From 2024-01-02 and To 2024-01-01 both dates parse, the window is resolved with from
  later than to, and the operation starts; the range error is what the started worker
  ends with.
\<close>

theorem invalid_range_starts_counterexample:
  "resolve_window (\<lambda>s. None) now_example now_minus_30d_example ''2024-01-02'' ''2024-01-01''
     = Inr (mk_dt 2024 1 2 0 0 0, mk_dt 2024 1 1 23 59 59)
   \<and> datetime_gt (mk_dt 2024 1 2 0 0 0) (mk_dt 2024 1 1 23 59 59)
   \<and> start_fetch endless_api api_user_info_undefined no_float exact_mean (\<lambda>s. None)
        now_example now_minus_30d_example ''x'' ''2024-01-02'' ''2024-01-01''
       = Started \<lparr>calls = [], result = Inl (ValueError ''From date must be <= To date'')\<rparr>"
proof -
  have gt: "datetime_gt (mk_dt 2024 1 2 0 0 0) (mk_dt 2024 1 1 23 59 59)"
    by (simp add: datetime_gt_def dt_fields_def mk_dt_def)
  have "fetch_thread endless_api api_user_info_undefined no_float exact_mean ''x''
          (mk_dt 2024 1 2 0 0 0) (mk_dt 2024 1 1 23 59 59)
        = \<lparr>calls = [], result = Inl (ValueError ''From date must be <= To date'')\<rparr>"
    using gt by (simp add: fetch_thread_def fetch_submissions_in_period_def)
  then show ?thesis
    using gt by (simp add: start_fetch_def handle_x reversed_window)
qed





lemma prob_lines_ok:
  "(\<forall>kr \<in> set m. \<exists>md. friendly_md (fst (snd kr)) = Inr md) \<Longrightarrow> \<exists>pls. prob_lines_of m = Inr pls"
proof (induction m)
  case Nil
  show ?case by simp
next
  case (Cons kr m)
  obtain key ts tgs nm rt where kr: "kr = (key, (ts, tgs, nm, rt))"
    by (cases kr) auto
  obtain md where md: "friendly_md ts = Inr md"
    using Cons.prems kr by auto
  obtain pls where "prob_lines_of m = Inr pls"
    using Cons by auto
  then show ?case
    by (simp add: kr md)
qed

lemma friendly_md_ok:
  "min_epoch_us \<le> ts * 1000000 \<Longrightarrow> ts * 1000000 \<le> max_epoch_us \<Longrightarrow> \<exists>md. friendly_md ts = Inr md"
  by (simp add: friendly_md_def Let_def)

lemma thread_lookup_failed:
  "info h = Inl e \<Longrightarrow>
     fetch_thread api info p rnd h f t = fetch_thread api (\<lambda>x. Inr []) p rnd h f t"
  by (simp add: fetch_thread_def Let_def split: sum.splits)

lemma thread_report:
  assumes "outcome (fetch_submissions_in_period api h (Some f) (Some t) (Some 1000) (Some 200))
             = Inr stopped"
    and "\<forall>kr \<in> set (collect_first_ac_per_problem
            (emitted (fetch_submissions_in_period api h (Some f) (Some t) (Some 1000) (Some 200)))).
           \<exists>md. friendly_md (fst (snd kr)) = Inr md"
  shows "\<exists>rep. result (fetch_thread api info p rnd h f t) = Inr rep
    \<and> solved_map rep = collect_first_ac_per_problem
         (emitted (fetch_submissions_in_period api h (Some f) (Some t) (Some 1000) (Some 200)))
    \<and> tag_lines rep = tag_lines_of rnd (aggregate p (solved_map rep))
    \<and> user_rating rep = (case info h of Inl e \<Rightarrow> None | Inr d \<Rightarrow> map_of d ''rating'')
    \<and> user_max_rating rep = (case info h of Inl e \<Rightarrow> None | Inr d \<Rightarrow> map_of d ''maxRating'')"
proof -
  let ?S = "collect_first_ac_per_problem
         (emitted (fetch_submissions_in_period api h (Some f) (Some t) (Some 1000) (Some 200)))"
  have "\<forall>kr \<in> set (sort_key (\<lambda>x. - fst (snd x)) ?S). \<exists>md. friendly_md (fst (snd kr)) = Inr md"
    using assms(2) by simp
  then obtain pls where "prob_lines_of (sort_key (\<lambda>x. - fst (snd x)) ?S) = Inr pls"
    using prob_lines_ok by blast
  then show ?thesis
    using assms(1) by (simp add: fetch_thread_def Let_def)
qed

lemma thread_result_fields:
  "result (fetch_thread api info p rnd h f t) = Inr rep \<Longrightarrow>
     user_rating rep = (case info h of Inl e \<Rightarrow> None | Inr d \<Rightarrow> map_of d ''rating'')
     \<and> user_max_rating rep = (case info h of Inl e \<Rightarrow> None | Inr d \<Rightarrow> map_of d ''maxRating'')"
  by (auto simp: fetch_thread_def Let_def split: sum.splits)

text \<open>
  C5. The file defines no \<open>api_user_info\<close>: the call raises \<open>NameError\<close> on every run, the
  \<open>except\<close> around it swallows the error, and the rating and maximum rating of the user
  are never retrieved. What the specification says of a failing lookup holds of every
  failure, this one included: the run equals the run whose lookup returned no field, and when the
  fetch succeeds and the solved timestamps can be printed it produces the solved records
  and the tag report, with both user fields absent.
\<close>

theorem user_info_never_retrieved:
  "(\<forall>rep. result (fetch_thread api api_user_info_undefined p rnd h f t) = Inr rep
       \<longrightarrow> user_rating rep = None \<and> user_max_rating rep = None)
   \<and> (\<forall>info e. info h = Inl e
       \<longrightarrow> fetch_thread api info p rnd h f t = fetch_thread api (\<lambda>x. Inr []) p rnd h f t)
   \<and> (\<forall>info e stopped. info h = Inl e
         \<and> outcome (fetch_submissions_in_period api h (Some f) (Some t) (Some 1000) (Some 200))
             = Inr stopped
         \<and> (\<forall>kr \<in> set (collect_first_ac_per_problem
              (emitted (fetch_submissions_in_period api h (Some f) (Some t) (Some 1000) (Some 200)))).
              \<exists>md. friendly_md (fst (snd kr)) = Inr md)
       \<longrightarrow> (\<exists>rep. result (fetch_thread api info p rnd h f t) = Inr rep
             \<and> solved_map rep = collect_first_ac_per_problem
                  (emitted (fetch_submissions_in_period api h (Some f) (Some t) (Some 1000) (Some 200)))
             \<and> tag_lines rep = tag_lines_of rnd (aggregate p (solved_map rep))
             \<and> user_rating rep = None \<and> user_max_rating rep = None))"
proof (intro conjI allI impI)
  fix rep
  assume "result (fetch_thread api api_user_info_undefined p rnd h f t) = Inr rep"
  then have "user_rating rep = (case api_user_info_undefined h of Inl e \<Rightarrow> None | Inr d \<Rightarrow> map_of d ''rating'')
     \<and> user_max_rating rep = (case api_user_info_undefined h of Inl e \<Rightarrow> None | Inr d \<Rightarrow> map_of d ''maxRating'')"
    by (rule thread_result_fields)
  then show "user_rating rep = None" "user_max_rating rep = None"
    by (simp_all add: api_user_info_undefined_def)
next
  fix info :: api_info and e
  assume "info h = Inl e"
  then show "fetch_thread api info p rnd h f t = fetch_thread api (\<lambda>x. Inr []) p rnd h f t"
    by (rule thread_lookup_failed)
next
  fix info :: api_info and e stopped
  assume a: "info h = Inl e
         \<and> outcome (fetch_submissions_in_period api h (Some f) (Some t) (Some 1000) (Some 200))
             = Inr stopped
         \<and> (\<forall>kr \<in> set (collect_first_ac_per_problem
              (emitted (fetch_submissions_in_period api h (Some f) (Some t) (Some 1000) (Some 200)))).
              \<exists>md. friendly_md (fst (snd kr)) = Inr md)"
  then show "\<exists>rep. result (fetch_thread api info p rnd h f t) = Inr rep
             \<and> solved_map rep = collect_first_ac_per_problem
                  (emitted (fetch_submissions_in_period api h (Some f) (Some t) (Some 1000) (Some 200)))
             \<and> tag_lines rep = tag_lines_of rnd (aggregate p (solved_map rep))
             \<and> user_rating rep = None \<and> user_max_rating rep = None"
    using thread_report [of api h f t stopped info p rnd] by auto
qed

lemma ts_2024_end: "timestamp_int (mk_dt 2024 1 1 23 59 59) = 1704153599"
  by (simp add: date_defs)

lemma two_page_window_run:
  "fetch_submissions_in_period two_page_api ''x'' (Some (mk_dt 1970 1 1 0 0 50))
       (Some (mk_dt 2024 1 1 23 59 59)) (Some 1000) (Some 200)
     = \<lparr>requests = [\<lparr>req_from = 1, req_count = 1000, response = Inr [sub_at 100, sub_at 10]\<rparr>],
        emitted = [sub_at 100], outcome = Inr OlderThanFrom\<rparr>"
proof -
  have "\<not> datetime_gt (mk_dt 1970 1 1 0 0 50) (mk_dt 2024 1 1 23 59 59)"
    by (simp add: datetime_gt_def dt_fields_def mk_dt_def)
  then show ?thesis
    by (simp add: fetch_submissions_in_period_def ts50 ts_2024_end fetch_loop.simps two_page_api_def
      scan_page_eq older_than_from_def in_window_def sub_ts_sub_at)
qed

lemma collect_sub_100:
  "collect_first_ac_per_problem [sub_at 100] = [(''1-A'', (100, [''dp''], ''Alpha'', Some (JNum 800)))]"
  by (simp add: sub_at_def reducer_defs)

theorem user_info_never_retrieved_witness:
  "api_user_info_undefined ''x'' = Inl (NameError ''name 'api_user_info' is not defined'')
   \<and> calls (fetch_thread two_page_api api_user_info_undefined no_float exact_mean ''x''
        (mk_dt 1970 1 1 0 0 50) (mk_dt 2024 1 1 23 59 59))
       = [UserStatus ''x'' 1 1000, UserInfo ''x'']
   \<and> (\<exists>rep. result (fetch_thread two_page_api api_user_info_undefined no_float exact_mean ''x''
                 (mk_dt 1970 1 1 0 0 50) (mk_dt 2024 1 1 23 59 59)) = Inr rep
          \<and> solved_map rep = [(''1-A'', (100, [''dp''], ''Alpha'', Some (JNum 800)))]
          \<and> tag_lines rep = [TagLine ''dp'' 1 (Some (800, 800, 800))]
          \<and> user_rating rep = None \<and> user_max_rating rep = None)"
proof -
  have u: "api_user_info_undefined ''x'' = Inl (NameError ''name 'api_user_info' is not defined'')"
    by (simp add: api_user_info_undefined_def)
  have ok: "\<forall>kr \<in> set (collect_first_ac_per_problem
              (emitted (fetch_submissions_in_period two_page_api ''x'' (Some (mk_dt 1970 1 1 0 0 50))
                 (Some (mk_dt 2024 1 1 23 59 59)) (Some 1000) (Some 200)))).
              \<exists>md. friendly_md (fst (snd kr)) = Inr md"
    using friendly_md_ok [of 100]
    by (simp add: two_page_window_run collect_sub_100 min_epoch_us_def max_epoch_us_def)
  have o: "outcome (fetch_submissions_in_period two_page_api ''x'' (Some (mk_dt 1970 1 1 0 0 50))
                 (Some (mk_dt 2024 1 1 23 59 59)) (Some 1000) (Some 200)) = Inr OlderThanFrom"
    by (simp add: two_page_window_run)
  have lines: "tag_lines_of exact_mean (aggregate no_float
                 [(''1-A'', (100, [''dp''], ''Alpha'', Some (JNum 800)))])
               = [TagLine ''dp'' 1 (Some (800, 800, 800))]"
    by (simp add: agg_defs)
  have c: "calls (fetch_thread two_page_api api_user_info_undefined no_float exact_mean ''x''
        (mk_dt 1970 1 1 0 0 50) (mk_dt 2024 1 1 23 59 59))
       = [UserStatus ''x'' 1 1000, UserInfo ''x'']"
    by (simp add: fetch_thread_def Let_def two_page_window_run split: sum.splits)
  have "\<exists>rep. result (fetch_thread two_page_api api_user_info_undefined no_float exact_mean ''x''
                 (mk_dt 1970 1 1 0 0 50) (mk_dt 2024 1 1 23 59 59)) = Inr rep
          \<and> solved_map rep = collect_first_ac_per_problem
                  (emitted (fetch_submissions_in_period two_page_api ''x'' (Some (mk_dt 1970 1 1 0 0 50))
                     (Some (mk_dt 2024 1 1 23 59 59)) (Some 1000) (Some 200)))
          \<and> tag_lines rep = tag_lines_of exact_mean (aggregate no_float (solved_map rep))
          \<and> user_rating rep = None \<and> user_max_rating rep = None"
    using user_info_never_retrieved [where api=two_page_api and h="''x''" and p=no_float
        and rnd=exact_mean and f="mk_dt 1970 1 1 0 0 50" and t="mk_dt 2024 1 1 23 59 59"]
      u o ok by blast
  then show ?thesis
    using u c by (auto simp: two_page_window_run collect_sub_100 lines)
qed

end
